theory Spec2Isabelle
  imports Complex_Main "HOL-Library.Signed_Division" "HOL-Library.Product_Lexorder"
    "HOL-Library.Multiset"
begin

text \<open>
  A shallow embedding of the two React components of the repository:
  \<^verbatim>\<open>src/src/TopProvers.jsx\<close>, which polls the metrics of three provers, shows them and
  persists a snapshot of them every two hours, and \<^verbatim>\<open>src/unnamed/part_000\<close>, which shows
  the five provers with the most cycles.  The definitions come first, in the order of
  the source: the JavaScript values and conversions the code relies on, \<open>parseCycles\<close>,
  the table of the three provers, the eligibility window and the bucket key,
  \<open>persistSnapshot\<close>, the scheduler \<open>maybeSnapshot\<close>, the component with its effects and
  timers, and the grouping and sorting of the second component.  The properties follow;
  the ten claims C1 to C10 about the program are each settled by the theorem after the
  text that names the claim.
\<close>

section \<open>JavaScript values the component computes with\<close>

text \<open>
  A JavaScript number is a double.  The model keeps the three non-finite values apart and
  represents a finite double by the exact rational it stands for: rounding to 53 bits
  (and with it the underflow of a tiny numeral to 0) is not modelled, the overflow of a
  converted numeral to \<^verbatim>\<open>Infinity\<close> is (the source tests for it with
  \<^verbatim>\<open>Number.isFinite\<close>), and there is no negative zero.
\<close>

datatype js_num = Fin rat | NaN | PosInf | NegInf

text \<open>
  The values a field of a fetched JSON row can hold.  \<open>JUndefined\<close> is a missing field.
  JSON numbers are integers here (the queried columns are counts and sums of integers),
  small enough for \<^verbatim>\<open>String\<close> to print them in plain decimal.  Nested arrays and objects
  are not modelled.
\<close>

datatype js_value = JUndefined | JNull | JBool bool | JInt int | JString string

datatype js_error =
  TypeError | SyntaxError | SecurityError | QuotaExceededError | NetworkError | HttpError nat

fun index_of :: "'a \<Rightarrow> 'a list \<Rightarrow> nat" where
  "index_of x [] = 0"
| "index_of x (y # ys) = (if x = y then 0 else Suc (index_of x ys))"

definition is_digit :: "char \<Rightarrow> bool" where
  "is_digit c = (c \<in> set ''0123456789'')"

definition digit_char :: "nat \<Rightarrow> char" where
  "digit_char d = ''0123456789'' ! d"

definition digit_val :: "char \<Rightarrow> nat" where
  "digit_val c = index_of c ''0123456789''"

definition digits_val :: "string \<Rightarrow> nat" where
  "digits_val s = foldl (\<lambda>acc c. 10 * acc + digit_val c) 0 s"

text \<open>\<^verbatim>\<open>String(n)\<close> for an integer: decimal digits, most significant first, \<^verbatim>\<open>-\<close> in front
  of a negative one.\<close>

fun nat_to_string :: "nat \<Rightarrow> string" where
  "nat_to_string n =
     (if n < 10 then [digit_char n] else nat_to_string (n div 10) @ [digit_char (n mod 10)])"

declare nat_to_string.simps [simp del]

definition int_to_string :: "int \<Rightarrow> string" where
  "int_to_string i =
     (if i < 0 then CHR ''-'' # nat_to_string (nat (- i)) else nat_to_string (nat i))"

text \<open>Strings are ASCII: white space is tab, line feed, vertical tab, form feed, carriage
  return and space, and only the letters A to Z have a lower case.\<close>

definition is_ws :: "char \<Rightarrow> bool" where
  "is_ws c = (c \<in> set [CHR 0x09, CHR 0x0A, CHR 0x0B, CHR 0x0C, CHR 0x0D, CHR '' ''])"

definition trim :: "string \<Rightarrow> string" where
  "trim s = rev (dropWhile is_ws (rev (dropWhile is_ws s)))"

definition lower_char :: "char \<Rightarrow> char" where
  "lower_char c =
     (let i = index_of c ''ABCDEFGHIJKLMNOPQRSTUVWXYZ''
      in if i < 26 then ''abcdefghijklmnopqrstuvwxyz'' ! i else c)"

definition toLowerCase :: "string \<Rightarrow> string" where
  "toLowerCase s = map lower_char s"

definition padStart :: "nat \<Rightarrow> char \<Rightarrow> string \<Rightarrow> string" where
  "padStart targetLength c s = replicate (targetLength - length s) c @ s"

text \<open>A numeral whose value reaches \<open>2^1024 - 2^970\<close> rounds to an infinity.\<close>

definition double_overflow :: rat where
  "double_overflow = 2 ^ 1024 - 2 ^ 970"

definition number_of_rat :: "rat \<Rightarrow> js_num" where
  "number_of_rat v =
     (if double_overflow \<le> v then PosInf
      else if v \<le> - double_overflow then NegInf
      else Fin v)"

definition pow10 :: "int \<Rightarrow> rat" where
  "pow10 e = (if 0 \<le> e then 10 ^ nat e else 1 / 10 ^ nat (- e))"

text \<open>
  The numeric literals of ECMAScript's \<^verbatim>\<open>StringNumericLiteral\<close> grammar, scanned from the
  left; each scanner returns the value of the longest literal at the head of the string
  and the rest of the string.
\<close>

definition scan_exponent :: "string \<Rightarrow> (int \<times> string) option" where
  "scan_exponent s =
     (case s of
        [] \<Rightarrow> None
      | c # r \<Rightarrow>
          if c = CHR ''e'' \<or> c = CHR ''E'' then
            (let (sg, r') =
                   (case r of
                      [] \<Rightarrow> (1, r)
                    | d # r2 \<Rightarrow>
                        if d = CHR ''+'' then (1, r2)
                        else if d = CHR ''-'' then (- 1, r2)
                        else (1, r));
                 ds = takeWhile is_digit r'
             in if ds = [] then None
                else Some (sg * int (digits_val ds), dropWhile is_digit r'))
          else None)"

definition scan_unsigned_decimal :: "string \<Rightarrow> (rat \<times> string) option" where
  "scan_unsigned_decimal s =
     (let ip = takeWhile is_digit s;
          r1 = dropWhile is_digit s;
          (fp, r2) =
            (case r1 of
               [] \<Rightarrow> ([], r1)
             | c # r \<Rightarrow>
                 if c = CHR ''.'' \<and> (ip \<noteq> [] \<or> takeWhile is_digit r \<noteq> [])
                 then (takeWhile is_digit r, dropWhile is_digit r)
                 else ([], r1))
      in if ip = [] \<and> fp = [] then None
         else
           (let m = of_nat (digits_val ip) + of_nat (digits_val fp) / 10 ^ length fp;
                (e, r3) = (case scan_exponent r2 of Some (e, r) \<Rightarrow> (e, r) | None \<Rightarrow> (0, r2))
            in Some (m * pow10 e, r3)))"

definition scan_infinity :: "string \<Rightarrow> string option" where
  "scan_infinity s = (if take 8 s = ''Infinity'' then Some (drop 8 s) else None)"

definition scan_unsigned :: "string \<Rightarrow> (js_num \<times> string) option" where
  "scan_unsigned s =
     (case scan_infinity s of
        Some r \<Rightarrow> Some (PosInf, r)
      | None \<Rightarrow>
          (case scan_unsigned_decimal s of
             Some (v, r) \<Rightarrow> Some (number_of_rat v, r)
           | None \<Rightarrow> None))"

definition js_negate :: "js_num \<Rightarrow> js_num" where
  "js_negate x =
     (case x of Fin v \<Rightarrow> Fin (- v) | NaN \<Rightarrow> NaN | PosInf \<Rightarrow> NegInf | NegInf \<Rightarrow> PosInf)"

definition scan_str_decimal :: "string \<Rightarrow> (js_num \<times> string) option" where
  "scan_str_decimal s =
     (case s of
        [] \<Rightarrow> None
      | c # r \<Rightarrow>
          if c = CHR ''+'' then scan_unsigned r
          else if c = CHR ''-'' then
            (case scan_unsigned r of Some (v, r') \<Rightarrow> Some (js_negate v, r') | None \<Rightarrow> None)
          else scan_unsigned s)"

text \<open>\<^verbatim>\<open>parseFloat\<close>: the longest decimal literal after leading white space, else \<^verbatim>\<open>NaN\<close>.\<close>

definition parseFloat :: "string \<Rightarrow> js_num" where
  "parseFloat s =
     (case scan_str_decimal (dropWhile is_ws s) of
        None \<Rightarrow> NaN
      | Some (v, r) \<Rightarrow> v)"

definition radix_val :: "nat \<Rightarrow> string \<Rightarrow> nat option" where
  "radix_val b s =
     (if s \<noteq> [] \<and> list_all (\<lambda>c. index_of (lower_char c) ''0123456789abcdef'' < b) s
      then Some (foldl (\<lambda>acc c. b * acc + index_of (lower_char c) ''0123456789abcdef'') 0 s)
      else None)"

definition scan_non_decimal :: "string \<Rightarrow> js_num option" where
  "scan_non_decimal s =
     (let p = take 2 s;
          b = (if p = ''0x'' \<or> p = ''0X'' then 16
               else if p = ''0o'' \<or> p = ''0O'' then 8
               else if p = ''0b'' \<or> p = ''0B'' then 2 else (0::nat))
      in if b = 0 then None
         else (case radix_val b (drop 2 s) of
                 Some n \<Rightarrow> Some (number_of_rat (of_nat n))
               | None \<Rightarrow> Some NaN))"

text \<open>\<^verbatim>\<open>Number(s)\<close> for a string: the whole trimmed string must be one literal; the empty
  string is 0.\<close>

definition string_to_number :: "string \<Rightarrow> js_num" where
  "string_to_number s =
     (let t = trim s
      in if t = [] then Fin 0
         else (case scan_non_decimal t of
                 Some v \<Rightarrow> v
               | None \<Rightarrow>
                   (case scan_str_decimal t of
                      Some (v, []) \<Rightarrow> v
                    | _ \<Rightarrow> NaN)))"

definition js_Number :: "js_value \<Rightarrow> js_num" where
  "js_Number v =
     (case v of
        JUndefined \<Rightarrow> NaN
      | JNull \<Rightarrow> Fin 0
      | JBool b \<Rightarrow> (if b then Fin 1 else Fin 0)
      | JInt i \<Rightarrow> Fin (of_int i)
      | JString s \<Rightarrow> string_to_number s)"

definition js_String :: "js_value \<Rightarrow> string" where
  "js_String v =
     (case v of
        JUndefined \<Rightarrow> ''undefined''
      | JNull \<Rightarrow> ''null''
      | JBool b \<Rightarrow> (if b then ''true'' else ''false'')
      | JInt i \<Rightarrow> int_to_string i
      | JString s \<Rightarrow> s)"

definition truthy :: "js_value \<Rightarrow> bool" where
  "truthy v =
     (case v of
        JUndefined \<Rightarrow> False
      | JNull \<Rightarrow> False
      | JBool b \<Rightarrow> b
      | JInt i \<Rightarrow> i \<noteq> 0
      | JString s \<Rightarrow> s \<noteq> [])"

text \<open>\<^verbatim>\<open>a || b\<close> on values.\<close>

definition js_or :: "js_value \<Rightarrow> js_value \<Rightarrow> js_value" where
  "js_or a b = (if truthy a then a else b)"

definition isFinite :: "js_num \<Rightarrow> bool" where
  "isFinite x = (case x of Fin v \<Rightarrow> True | _ \<Rightarrow> False)"

section \<open>Parsing a cycle count\<close>

text \<open>
  \<^verbatim>\<open>
  function parseCycles(value) {
    if (value == null) return 0;
    const str = String(value).trim();
    const match = str.match(/^([\d.]+)/);
    if (!match) return 0;
    const num = parseFloat(match[1]);
    return Number.isFinite(num) ? num : 0;
  }
  \<close>
  \<^verbatim>\<open>value == null\<close> holds of \<^verbatim>\<open>null\<close> and \<^verbatim>\<open>undefined\<close>.  The regular expression matches
  the longest run of digits and dots at the start, and fails when that run is empty.
\<close>

definition parseCycles :: "js_value \<Rightarrow> js_num" where
  "parseCycles v =
     (if v = JNull \<or> v = JUndefined then Fin 0
      else
        (let str = trim (js_String v);
             m = takeWhile (\<lambda>c. is_digit c \<or> c = CHR ''.'') str
         in if m = [] then Fin 0
            else (let num = parseFloat m in if isFinite num then num else Fin 0)))"

section \<open>The three provers and the table built from a fetch\<close>

definition PROVERS :: "(string \<times> string) list" where
  "PROVERS =
     [(''Prover 1'', ''0x6220892679110898abd78847d6f0a639e3408dc7''),
      (''Prover 2'', ''0x34a2df023b535c1bd79a791b259adea947f603e3''),
      (''Prover 3'', ''0x11973257c9210d852084f7b97f672080c1dbbb53'')]"

text \<open>A row \<^verbatim>\<open>r\<close> of the response (an object; a field it lacks is \<open>JUndefined\<close>), and a row
  of the table the component shows.\<close>

record api_row =
  r_prover_addr :: js_value
  r_orders_taken :: js_value
  r_cycles_proved :: js_value

record metrics_row =
  label :: string
  addr :: string
  orders_taken :: js_num
  cycles_proved :: js_num

text \<open>
  \<^verbatim>\<open>
  data.map((r) => [
    (r.prover_addr || "").toLowerCase(),
    { orders_taken: Number(r.orders_taken || 0),
      cycles_proved: parseCycles(r.cycles_proved) },
  ])
  \<close>
  A truthy \<^verbatim>\<open>prover_addr\<close> that is not a string has no \<^verbatim>\<open>toLowerCase\<close>: a TypeError.
\<close>

definition byAddr_entry :: "api_row \<Rightarrow> js_error + (string \<times> js_num \<times> js_num)" where
  "byAddr_entry r =
     (case js_or (r_prover_addr r) (JString '''') of
        JString s \<Rightarrow>
          Inr (toLowerCase s,
               js_Number (js_or (r_orders_taken r) (JInt 0)),
               parseCycles (r_cycles_proved r))
      | _ \<Rightarrow> Inl TypeError)"

fun map_result :: "('a \<Rightarrow> 'e + 'b) \<Rightarrow> 'a list \<Rightarrow> 'e + 'b list" where
  "map_result f [] = Inr []"
| "map_result f (x # xs) =
     (case f x of
        Inl e \<Rightarrow> Inl e
      | Inr y \<Rightarrow> (case map_result f xs of Inl e \<Rightarrow> Inl e | Inr ys \<Rightarrow> Inr (y # ys)))"

text \<open>\<^verbatim>\<open>Object.fromEntries\<close> keeps the last entry of a key, so \<^verbatim>\<open>byAddr[k]\<close> is the last
  entry with key \<open>k\<close>.  It is read at the three addresses only, which are no names of
  inherited properties.\<close>

definition byAddr_lookup :: "(string \<times> 'v) list \<Rightarrow> string \<Rightarrow> 'v option" where
  "byAddr_lookup entries k = map_of (rev entries) k"

text \<open>
  \<^verbatim>\<open>
  const table = PROVERS.map((p) => ({
    label: p.label,
    addr: p.addr,
    orders_taken: byAddr[p.addr.toLowerCase()]?.orders_taken ?? 0,
    cycles_proved: byAddr[p.addr.toLowerCase()]?.cycles_proved ?? 0,
  }));
  \<close>
\<close>

definition table_row :: "(string \<times> js_num \<times> js_num) list \<Rightarrow> string \<times> string \<Rightarrow> metrics_row" where
  "table_row byAddr p =
     \<lparr>label = fst p,
      addr = snd p,
      orders_taken =
        (case byAddr_lookup byAddr (toLowerCase (snd p)) of Some e \<Rightarrow> fst e | None \<Rightarrow> Fin 0),
      cycles_proved =
        (case byAddr_lookup byAddr (toLowerCase (snd p)) of Some e \<Rightarrow> snd e | None \<Rightarrow> Fin 0)\<rparr>"

definition fetchData_table :: "api_row list \<Rightarrow> js_error + metrics_row list" where
  "fetchData_table data =
     (case map_result byAddr_entry data of
        Inl e \<Rightarrow> Inl e
      | Inr byAddr \<Rightarrow> Inr (map (table_row byAddr) PROVERS))"

section \<open>Dates as the scheduler reads them\<close>

text \<open>
  The component touches a \<^verbatim>\<open>Date\<close> only through its UTC getters (\<^verbatim>\<open>getUTCFullYear\<close>,
  \<^verbatim>\<open>getUTCMonth\<close>, \<^verbatim>\<open>getUTCDate\<close>, \<^verbatim>\<open>getUTCHours\<close>, \<^verbatim>\<open>getUTCMinutes\<close>) and
  \<^verbatim>\<open>toISOString\<close>.  A valid \<^verbatim>\<open>Date\<close> is therefore the record of what the getters return:
  the year is an integer, the month counts from 0, the day of the month from 1.  An
  invalid \<^verbatim>\<open>Date\<close> (every getter \<^verbatim>\<open>NaN\<close>) is not a value of this type; \<^verbatim>\<open>new Date()\<close>
  never produces one.
\<close>

record utc_date =
  utcFullYear :: int
  utcMonth :: nat
  utcDate :: nat
  utcHours :: nat
  utcMinutes :: nat
  utcSeconds :: nat
  utcMilliseconds :: nat

text \<open>The ranges the getters of a valid \<^verbatim>\<open>Date\<close> stay in.\<close>

definition valid_date :: "utc_date \<Rightarrow> bool" where
  "valid_date now =
     (utcMonth now < 12 \<and> 1 \<le> utcDate now \<and> utcDate now \<le> 31 \<and> utcHours now < 24 \<and>
      utcMinutes now < 60 \<and> utcSeconds now < 60 \<and> utcMilliseconds now < 1000)"

text \<open>Two dates lie in the same UTC hour when they agree on year, month, day and hour.\<close>

definition same_utc_hour :: "utc_date \<Rightarrow> utc_date \<Rightarrow> bool" where
  "same_utc_hour a b =
     (utcFullYear a = utcFullYear b \<and> utcMonth a = utcMonth b \<and> utcDate a = utcDate b \<and>
      utcHours a = utcHours b)"

text \<open>
  \<^verbatim>\<open>toISOString\<close> writes \<^verbatim>\<open>YYYY-MM-DDTHH:mm:ss.sssZ\<close>, with a sign and six digits for a
  year outside 0 to 9999.
\<close>

definition toISOString :: "utc_date \<Rightarrow> string" where
  "toISOString now =
     (let y = utcFullYear now;
          ys = (if 0 \<le> y \<and> y \<le> 9999 then padStart 4 CHR ''0'' (nat_to_string (nat y))
                else (if y < 0 then ''-'' else ''+'') @
                     padStart 6 CHR ''0'' (nat_to_string (nat \<bar>y\<bar>)))
      in ys @ ''-'' @ padStart 2 CHR ''0'' (nat_to_string (utcMonth now + 1)) @
         ''-'' @ padStart 2 CHR ''0'' (nat_to_string (utcDate now)) @
         ''T'' @ padStart 2 CHR ''0'' (nat_to_string (utcHours now)) @
         '':'' @ padStart 2 CHR ''0'' (nat_to_string (utcMinutes now)) @
         '':'' @ padStart 2 CHR ''0'' (nat_to_string (utcSeconds now)) @
         ''.'' @ padStart 3 CHR ''0'' (nat_to_string (utcMilliseconds now)) @ ''Z'')"

section \<open>The eligibility window and the bucket key\<close>

text \<open>
  \<^verbatim>\<open>
  function isSnapshotWindow(now = new Date()) {
    const h = now.getUTCHours();
    const m = now.getUTCMinutes();
    const anchorOk = (h - 10 + 24) % 2 === 0;
    const minuteOk = m < 5;
    return anchorOk && minuteOk;
  }
  \<close>
  JavaScript's \<^verbatim>\<open>%\<close> takes the sign of the dividend: on integers it is \<open>smod\<close>.
\<close>

definition isSnapshotWindow :: "utc_date \<Rightarrow> bool" where
  "isSnapshotWindow now =
     (let h = int (utcHours now);
          m = utcMinutes now;
          anchorOk = ((h - 10 + 24) smod 2 = 0);
          minuteOk = (m < 5)
      in anchorOk \<and> minuteOk)"

text \<open>
  \<^verbatim>\<open>
  function snapshotBucketKey(now = new Date()) {
    const y = now.getUTCFullYear();
    const mo = String(now.getUTCMonth() + 1).padStart(2, "0");
    const d = String(now.getUTCDate()).padStart(2, "0");
    const h = String(now.getUTCHours()).padStart(2, "0");
    return `${y}-${mo}-${d}T${h}:00Z`;
  }
  \<close>
\<close>

definition snapshotBucketKey :: "utc_date \<Rightarrow> string" where
  "snapshotBucketKey now =
     (let y = utcFullYear now;
          mo = padStart 2 CHR ''0'' (nat_to_string (utcMonth now + 1));
          d = padStart 2 CHR ''0'' (nat_to_string (utcDate now));
          h = padStart 2 CHR ''0'' (nat_to_string (utcHours now))
      in int_to_string y @ ''-'' @ mo @ ''-'' @ d @ ''T'' @ h @ '':00Z'')"


text \<open>The key after the year: thirteen characters for a valid date.\<close>

definition key_tail :: "utc_date \<Rightarrow> string" where
  "key_tail now =
     ''-'' @ padStart 2 CHR ''0'' (nat_to_string (utcMonth now + 1)) @
     ''-'' @ padStart 2 CHR ''0'' (nat_to_string (utcDate now)) @
     ''T'' @ padStart 2 CHR ''0'' (nat_to_string (utcHours now)) @ '':00Z''"

section \<open>Persisting a snapshot\<close>

record snapshot =
  bucket :: string
  captured_at :: string
  provers :: "metrics_row list"

text \<open>
  What \<^verbatim>\<open>localStorage\<close> holds under \<^verbatim>\<open>STORAGE_KEY\<close>, by what \<^verbatim>\<open>JSON.parse\<close> makes of it:
  the empty string, text that is not JSON, JSON that is not an array, or an array (the
  log, oldest first).  \<open>None\<close> is no item (\<^verbatim>\<open>getItem\<close> returns \<^verbatim>\<open>null\<close>).  The entries
  of the array stand for themselves: what \<^verbatim>\<open>JSON.stringify\<close> loses of a snapshot is not
  modelled.  \<^verbatim>\<open>getItem\<close> and \<^verbatim>\<open>setItem\<close> can throw (storage disabled, quota exceeded).
\<close>

datatype stored = EmptyString | Unparseable | NotAnArray | JsonArray "snapshot list"

record local_storage =
  item :: "stored option"
  getItem_throws :: bool
  setItem_throws :: bool

text \<open>
  The browser as \<^verbatim>\<open>persistSnapshot\<close> meets it: the storage, the two places an endpoint can
  be configured, whether \<^verbatim>\<open>fetch\<close> fails, the requests that went out, and the warnings on
  the console.
\<close>

record browser =
  localStorage :: local_storage
  vite_metrics_endpoint :: "string option"
  window_metrics_endpoint :: "string option"
  fetch_rejects :: bool
  posted :: "(string \<times> snapshot) list"
  console_warn :: "string list"

text \<open>
  The first \<^verbatim>\<open>try\<close> block:
  \<^verbatim>\<open>
  const prev = JSON.parse(localStorage.getItem(STORAGE_KEY) || "[]");
  prev.push(snapshot);
  if (prev.length > 1000) prev.splice(0, prev.length - 1000);
  localStorage.setItem(STORAGE_KEY, JSON.stringify(prev));
  \<close>
\<close>

definition parse_stored :: "stored option \<Rightarrow> js_error + snapshot list" where
  "parse_stored it =
     (case it of
        None \<Rightarrow> Inr []
      | Some EmptyString \<Rightarrow> Inr []
      | Some Unparseable \<Rightarrow> Inl SyntaxError
      | Some NotAnArray \<Rightarrow> Inl TypeError
      | Some (JsonArray xs) \<Rightarrow> Inr xs)"

definition storage_block :: "snapshot \<Rightarrow> local_storage \<Rightarrow> js_error + local_storage" where
  "storage_block snapshot ls =
     (if getItem_throws ls then Inl SecurityError
      else
        (case parse_stored (item ls) of
           Inl e \<Rightarrow> Inl e
         | Inr prev \<Rightarrow>
             (let prev1 = prev @ [snapshot];
                  prev2 = (if length prev1 > 1000 then drop (length prev1 - 1000) prev1
                           else prev1)
              in if setItem_throws ls then Inl QuotaExceededError
                 else Inr (ls\<lparr>item := Some (JsonArray prev2)\<rparr>))))"

text \<open>
  \<^verbatim>\<open>
  const endpoint =
    (typeof import.meta !== "undefined" && import.meta.env &&
      import.meta.env.VITE_METRICS_ENDPOINT) ||
    (typeof window !== "undefined" && window.ENV && window.ENV.METRICS_ENDPOINT) ||
    null;
  \<close>
  An empty string is falsy.
\<close>

definition resolve_endpoint :: "browser \<Rightarrow> string option" where
  "resolve_endpoint b =
     (case vite_metrics_endpoint b of
        Some u \<Rightarrow>
          if u \<noteq> [] then Some u
          else (case window_metrics_endpoint b of
                  Some w \<Rightarrow> if w \<noteq> [] then Some w else None
                | None \<Rightarrow> None)
      | None \<Rightarrow>
          (case window_metrics_endpoint b of
             Some w \<Rightarrow> if w \<noteq> [] then Some w else None
           | None \<Rightarrow> None))"

text \<open>The second \<^verbatim>\<open>try\<close> block: \<^verbatim>\<open>await fetch(endpoint, { method: "POST", ... })\<close>.\<close>

definition post_block :: "string \<Rightarrow> snapshot \<Rightarrow> browser \<Rightarrow> js_error + browser" where
  "post_block endpoint snapshot b =
     (if fetch_rejects b then Inl NetworkError
      else Inr (b\<lparr>posted := posted b @ [(endpoint, snapshot)]\<rparr>))"

text \<open>
  \<^verbatim>\<open>persistSnapshot\<close> is an \<^verbatim>\<open>async\<close> function: its result is the outcome of its promise,
  \<open>Inl\<close> a rejection.  Each \<^verbatim>\<open>try\<close> block has a \<^verbatim>\<open>catch\<close> that warns on the console.
\<close>

definition persistSnapshot :: "snapshot \<Rightarrow> browser \<Rightarrow> js_error + browser" where
  "persistSnapshot snapshot b =
     (let b1 = (case storage_block snapshot (localStorage b) of
                  Inr ls \<Rightarrow> b\<lparr>localStorage := ls\<rparr>
                | Inl e \<Rightarrow>
                    b\<lparr>console_warn := console_warn b @ [''Failed to persist to localStorage'']\<rparr>)
      in case resolve_endpoint b1 of
           None \<Rightarrow> Inr b1
         | Some endpoint \<Rightarrow>
             (case post_block endpoint snapshot b1 of
                Inr b2 \<Rightarrow> Inr b2
              | Inl e \<Rightarrow>
                  Inr (b1\<lparr>console_warn :=
                         console_warn b1 @ [''Failed to POST snapshot to backend'']\<rparr>)))"

section \<open>The snapshot scheduler\<close>

text \<open>
  What one running component remembers across ticks: \<^verbatim>\<open>lastBucketRef.current\<close> (\<open>None\<close>
  is the initial \<^verbatim>\<open>null\<close>) and the browser.  \<open>history\<close> is a history variable that the
  source does not have: the writes to \<^verbatim>\<open>lastBucketRef\<close> and the calls of
  \<^verbatim>\<open>persistSnapshot\<close>, in the order the scheduler made them.
\<close>

datatype action = Remember string | Persist snapshot

record session =
  lastBucketRef :: "string option"
  browser :: browser
  history :: "action list"

fun persisted :: "action list \<Rightarrow> snapshot list" where
  "persisted [] = []"
| "persisted (Remember b # as) = persisted as"
| "persisted (Persist s # as) = s # persisted as"

text \<open>
  \<^verbatim>\<open>
  function maybeSnapshot() {
    if (!rows.length) return;
    const now = new Date();
    if (!isSnapshotWindow(now)) return;
    const bucket = snapshotBucketKey(now);
    if (lastBucketRef.current === bucket) return;
    lastBucketRef.current = bucket;
    const payload = {
      bucket,
      captured_at: now.toISOString(),
      provers: rows.map((r) => ({ label: r.label, addr: r.addr,
        orders_taken: r.orders_taken, cycles_proved: r.cycles_proved })),
    };
    persistSnapshot(payload);
  }
  \<close>
  \<open>rows\<close> is the table the closure captured and \<open>now\<close> what \<^verbatim>\<open>new Date()\<close> returns at the
  tick.  The promise of \<^verbatim>\<open>persistSnapshot\<close> is dropped: a rejection would not reach the
  caller.
\<close>

definition maybeSnapshot :: "metrics_row list \<Rightarrow> utc_date \<Rightarrow> session \<Rightarrow> js_error + session" where
  "maybeSnapshot rows now st =
     (if length rows = 0 then Inr st
      else if \<not> isSnapshotWindow now then Inr st
      else
        (let bucket = snapshotBucketKey now
         in if lastBucketRef st = Some bucket then Inr st
            else
              (let st1 = st\<lparr>lastBucketRef := Some bucket,
                              history := history st @ [Remember bucket]\<rparr>;
                   payload =
                     \<lparr>bucket = bucket,
                      captured_at = toISOString now,
                      provers =
                        map (\<lambda>r. \<lparr>label = label r, addr = addr r,
                                   orders_taken = orders_taken r,
                                   cycles_proved = cycles_proved r\<rparr>) rows\<rparr>;
                   st2 = st1\<lparr>history := history st1 @ [Persist payload]\<rparr>
               in case persistSnapshot payload (browser st2) of
                    Inr b \<Rightarrow> Inr (st2\<lparr>browser := b\<rparr>)
                  | Inl e \<Rightarrow> Inr st2)))"

text \<open>A run of ticks, each with the rows its closure holds and the time it reads; a tick
  that raised would end the run.\<close>

fun run_ticks :: "(metrics_row list \<times> utc_date) list \<Rightarrow> session \<Rightarrow> js_error + session" where
  "run_ticks [] st = Inr st"
| "run_ticks (t # ts) st =
     (case maybeSnapshot (fst t) (snd t) st of
        Inl e \<Rightarrow> Inl e
      | Inr st' \<Rightarrow> run_ticks ts st')"

text \<open>
  Chronological order on dates: the order of their fields, most significant first.
\<close>

definition hour_fields :: "utc_date \<Rightarrow> int \<times> nat \<times> nat \<times> nat" where
  "hour_fields a = (utcFullYear a, utcMonth a, utcDate a, utcHours a)"

definition not_after :: "utc_date \<Rightarrow> utc_date \<Rightarrow> bool" where
  "not_after a b =
     ((hour_fields a, utcMinutes a, utcSeconds a, utcMilliseconds a) \<le>
      (hour_fields b, utcMinutes b, utcSeconds b, utcMilliseconds b))"

text \<open>A fresh session: nothing remembered, nothing done.\<close>

definition fresh :: "browser \<Rightarrow> session" where
  "fresh b = \<lparr>lastBucketRef = None, browser = b, history = []\<rparr>"

text \<open>The last \<open>n\<close> entries of a log.\<close>

definition most_recent :: "nat \<Rightarrow> 'a list \<Rightarrow> 'a list" where
  "most_recent n xs = drop (length xs - n) xs"

text \<open>The buckets of the snapshots a fresh session hands to \<^verbatim>\<open>persistSnapshot\<close> over a run.\<close>

definition buckets_of_run :: "(metrics_row list \<times> utc_date) list \<Rightarrow> browser \<Rightarrow> string list" where
  "buckets_of_run ts b =
     (case run_ticks ts (fresh b) of
        Inr st \<Rightarrow> map bucket (persisted (history st))
      | Inl e \<Rightarrow> [])"

text \<open>
  The invariant of a run whose times never decrease: the snapshots handed over so far
  carry the keys of dates in strictly increasing hours, and the remembered bucket is the
  key of the last of them.
\<close>

definition dedup_inv :: "utc_date list \<Rightarrow> session \<Rightarrow> bool" where
  "dedup_inv ds st =
     (map bucket (persisted (history st)) = map snapshotBucketKey ds \<and>
      sorted_wrt (\<lambda>a b. hour_fields a < hour_fields b) ds \<and>
      list_all valid_date ds \<and>
      lastBucketRef st = (if ds = [] then None else Some (snapshotBucketKey (last ds))))"

section \<open>The component: state, effects and timers\<close>

text \<open>
  The component \<^verbatim>\<open>TopProvers\<close> of \<^verbatim>\<open>src/src/TopProvers.jsx\<close> holds the state \<^verbatim>\<open>rows\<close>,
  \<^verbatim>\<open>loading\<close>, \<^verbatim>\<open>error\<close> and the ref \<^verbatim>\<open>lastBucketRef\<close>, and runs two effects.  The
  browser's timers are a list of pending timers on a clock that counts milliseconds since
  the mount.  A timer callback is a closure: \<^verbatim>\<open>fetchData\<close>, or \<^verbatim>\<open>maybeSnapshot\<close> with the
  \<^verbatim>\<open>rows\<close> of the render that created it.
\<close>

datatype callback = FetchData | MaybeSnapshot "metrics_row list"

record timer =
  timer_id :: nat
  due :: nat
  period :: "nat option"
  callback :: callback

text \<open>How a fetch ends: the request fails, the status is not ok, the body is not JSON,
  \<^verbatim>\<open>json.rows || json.data\<close> is truthy but no array, or it is an array of rows (the empty
  array when both are missing).\<close>

datatype fetch_outcome = Rejected | NotOk nat | BadJson | RowsNotArray | Rows "api_row list"

text \<open>
  \<open>stop\<close> is the variable of the first effect, \<open>poll_timer\<close> and \<open>snapshot_timer\<close> are the
  interval ids \<^verbatim>\<open>t\<close> that the cleanup functions of the two effects hold, \<open>in_flight\<close>
  counts the fetches that have not ended.  \<open>fired\<close> is a history variable: the callbacks
  the timers have run, each with the time.
\<close>

record component =
  rows :: "metrics_row list"
  loading :: bool
  error :: "js_error option"
  sched :: session
  stop :: bool
  clock :: nat
  timers :: "timer list"
  next_timer :: nat
  poll_timer :: "nat option"
  snapshot_timer :: "nat option"
  in_flight :: nat
  fired :: "(nat \<times> callback) list"

definition setInterval :: "callback \<Rightarrow> nat \<Rightarrow> component \<Rightarrow> nat \<times> component" where
  "setInterval cb ms c =
     (next_timer c,
      c\<lparr>timers := timers c @
             [\<lparr>timer_id = next_timer c, due = clock c + ms, period = Some ms, callback = cb\<rparr>],
        next_timer := next_timer c + 1\<rparr>)"

definition setTimeout :: "callback \<Rightarrow> nat \<Rightarrow> component \<Rightarrow> nat \<times> component" where
  "setTimeout cb ms c =
     (next_timer c,
      c\<lparr>timers := timers c @
             [\<lparr>timer_id = next_timer c, due = clock c + ms, period = None, callback = cb\<rparr>],
        next_timer := next_timer c + 1\<rparr>)"

definition clearInterval :: "nat \<Rightarrow> component \<Rightarrow> component" where
  "clearInterval t c = c\<lparr>timers := filter (\<lambda>tm. timer_id tm \<noteq> t) (timers c)\<rparr>"

text \<open>\<^verbatim>\<open>fetchData\<close> up to its first \<^verbatim>\<open>await\<close>: \<^verbatim>\<open>setError(null)\<close>, then the request.\<close>

definition fetchData_start :: "component \<Rightarrow> component" where
  "fetchData_start c = c\<lparr>error := None, in_flight := in_flight c + 1\<rparr>"

text \<open>
  The first effect and its cleanup:
  \<^verbatim>\<open>
  let stop = false;
  fetchData();
  const t = setInterval(fetchData, 60_000);
  return () => { stop = true; clearInterval(t); };
  \<close>
\<close>

definition poll_effect :: "component \<Rightarrow> component" where
  "poll_effect c =
     (let c1 = fetchData_start (c\<lparr>stop := False\<rparr>);
          (t, c2) = setInterval FetchData 60000 c1
      in c2\<lparr>poll_timer := Some t\<rparr>)"

definition poll_cleanup :: "component \<Rightarrow> component" where
  "poll_cleanup c =
     (case poll_timer c of
        Some t \<Rightarrow> (clearInterval t (c\<lparr>stop := True\<rparr>))\<lparr>poll_timer := None\<rparr>
      | None \<Rightarrow> c)"

text \<open>
  The second effect and its cleanup:
  \<^verbatim>\<open>
  const t = setInterval(maybeSnapshot, 60_000);
  setTimeout(maybeSnapshot, 500);
  return () => clearInterval(t);
  \<close>
\<close>

definition snapshot_effect :: "component \<Rightarrow> component" where
  "snapshot_effect c =
     (let (t, c1) = setInterval (MaybeSnapshot (rows c)) 60000 c;
          (u, c2) = setTimeout (MaybeSnapshot (rows c)) 500 c1
      in c2\<lparr>snapshot_timer := Some t\<rparr>)"

definition snapshot_cleanup :: "component \<Rightarrow> component" where
  "snapshot_cleanup c =
     (case snapshot_timer c of
        Some t \<Rightarrow> (clearInterval t c)\<lparr>snapshot_timer := None\<rparr>
      | None \<Rightarrow> c)"

text \<open>\<^verbatim>\<open>setRows(table)\<close>: the table is a new array, so the second effect, which depends on
  \<^verbatim>\<open>[rows]\<close>, is cleaned up and run again.\<close>

definition setRows :: "metrics_row list \<Rightarrow> component \<Rightarrow> component" where
  "setRows table c = snapshot_effect (snapshot_cleanup (c\<lparr>rows := table\<rparr>))"

text \<open>
  The rest of \<^verbatim>\<open>fetchData\<close>, when the fetch has ended: the \<^verbatim>\<open>try\<close> block either builds
  the table or throws; \<^verbatim>\<open>setRows\<close>, \<^verbatim>\<open>setError\<close> and \<^verbatim>\<open>setLoading\<close> are skipped once
  \<^verbatim>\<open>stop\<close> is set.
\<close>

definition fetch_result :: "fetch_outcome \<Rightarrow> js_error + metrics_row list" where
  "fetch_result out =
     (case out of
        Rejected \<Rightarrow> Inl NetworkError
      | NotOk status \<Rightarrow> Inl (HttpError status)
      | BadJson \<Rightarrow> Inl SyntaxError
      | RowsNotArray \<Rightarrow> Inl TypeError
      | Rows data \<Rightarrow> fetchData_table data)"

definition fetchData_settle :: "fetch_outcome \<Rightarrow> component \<Rightarrow> component" where
  "fetchData_settle out c =
     (if in_flight c = 0 then c
      else
        (let c1 = c\<lparr>in_flight := in_flight c - 1\<rparr>
         in case fetch_result out of
              Inr table \<Rightarrow> if stop c1 then c1 else (setRows table c1)\<lparr>loading := False\<rparr>
            | Inl e \<Rightarrow> if stop c1 then c1 else c1\<lparr>error := Some e, loading := False\<rparr>))"

text \<open>A timer runs its callback; \<open>wall\<close> gives the date \<^verbatim>\<open>new Date()\<close> returns at a time of
  the clock.\<close>

definition run_callback :: "(nat \<Rightarrow> utc_date) \<Rightarrow> callback \<Rightarrow> component \<Rightarrow> component" where
  "run_callback wall cb c =
     (let c1 = c\<lparr>fired := fired c @ [(clock c, cb)]\<rparr>
      in case cb of
           FetchData \<Rightarrow> fetchData_start c1
         | MaybeSnapshot rs \<Rightarrow>
             (case maybeSnapshot rs (wall (clock c1)) (sched c1) of
                Inr s \<Rightarrow> c1\<lparr>sched := s\<rparr>
              | Inl e \<Rightarrow> c1))"

text \<open>A due timer fires: an interval is due again one period later, a timeout is gone.\<close>

definition fire_timer :: "(nat \<Rightarrow> utc_date) \<Rightarrow> component \<Rightarrow> timer \<Rightarrow> component" where
  "fire_timer wall c tm =
     run_callback wall (callback tm)
       (c\<lparr>timers :=
            (case period tm of
               Some ms \<Rightarrow>
                 map (\<lambda>x. if timer_id x = timer_id tm then x\<lparr>due := due x + ms\<rparr> else x) (timers c)
             | None \<Rightarrow> filter (\<lambda>x. timer_id x \<noteq> timer_id tm) (timers c))\<rparr>)"

text \<open>One millisecond passes: the timers due at the new time fire, oldest first.\<close>

definition tick_ms :: "(nat \<Rightarrow> utc_date) \<Rightarrow> component \<Rightarrow> component" where
  "tick_ms wall c =
     (let c1 = c\<lparr>clock := clock c + 1\<rparr>
      in foldl (fire_timer wall) c1 (filter (\<lambda>tm. due tm = clock c1) (timers c1)))"

fun elapse :: "(nat \<Rightarrow> utc_date) \<Rightarrow> nat \<Rightarrow> component \<Rightarrow> component" where
  "elapse wall 0 c = c"
| "elapse wall (Suc n) c = elapse wall n (tick_ms wall c)"

text \<open>The first render (\<^verbatim>\<open>useState([])\<close>, \<^verbatim>\<open>useState(true)\<close>, \<^verbatim>\<open>useState(null)\<close>,
  \<^verbatim>\<open>useRef(null)\<close>), the mount, which runs both effects, and the teardown, which runs both
  cleanups.\<close>

definition initial :: "browser \<Rightarrow> component" where
  "initial b =
     \<lparr>rows = [], loading = True, error = None, sched = fresh b, stop = False, clock = 0,
      timers = [], next_timer = 0, poll_timer = None, snapshot_timer = None, in_flight = 0,
      fired = []\<rparr>"

definition mount :: "component \<Rightarrow> component" where
  "mount c = snapshot_effect (poll_effect c)"

definition unmount :: "component \<Rightarrow> component" where
  "unmount c = snapshot_cleanup (poll_cleanup c)"

text \<open>What happens to a mounted component: time passes, a fetch ends, the component is
  torn down.\<close>

datatype event = Elapse nat | Settle fetch_outcome | Unmount

fun run_events :: "(nat \<Rightarrow> utc_date) \<Rightarrow> event list \<Rightarrow> component \<Rightarrow> component" where
  "run_events wall [] c = c"
| "run_events wall (Elapse n # es) c = run_events wall es (elapse wall n c)"
| "run_events wall (Settle out # es) c = run_events wall es (fetchData_settle out c)"
| "run_events wall (Unmount # es) c = run_events wall es (unmount c)"

text \<open>The key under which a row of the response enters \<^verbatim>\<open>byAddr\<close>.\<close>

definition row_key :: "api_row \<Rightarrow> string option" where
  "row_key r =
     (case js_or (r_prover_addr r) (JString '''') of
        JString s \<Rightarrow> Some (toLowerCase s)
      | _ \<Rightarrow> None)"

text \<open>
  The invariant of a component: its rows, the rows its timers' closures hold and the
  provers of every snapshot it has handed over are empty or the table of a response in
  \<open>D\<close>; a snapshot's provers are never empty.
\<close>

definition table_like :: "api_row list set \<Rightarrow> metrics_row list \<Rightarrow> bool" where
  "table_like D rs = (rs = [] \<or> (\<exists>data\<in>D. fetchData_table data = Inr rs))"

fun callback_ok :: "api_row list set \<Rightarrow> callback \<Rightarrow> bool" where
  "callback_ok D FetchData = True"
| "callback_ok D (MaybeSnapshot rs) = table_like D rs"

definition comp_inv :: "api_row list set \<Rightarrow> component \<Rightarrow> bool" where
  "comp_inv D c =
     (table_like D (rows c) \<and>
      list_all (\<lambda>tm. callback_ok D (callback tm)) (timers c) \<and>
      list_all (\<lambda>s. \<exists>data\<in>D. fetchData_table data = Inr (provers s))
        (persisted (history (sched c))))"

fun fetched :: "event list \<Rightarrow> api_row list set" where
  "fetched [] = {}"
| "fetched (Settle (Rows data) # es) = insert data (fetched es)"
| "fetched (e # es) = fetched es"

text \<open>
  The invariant of the timers: every pending interval is the one a cleanup function
  holds, and \<^verbatim>\<open>fetchData\<close> is pending only as the poll interval.  After the teardown
  nothing but timeouts of \<^verbatim>\<open>maybeSnapshot\<close> is pending.
\<close>

definition timers_inv :: "component \<Rightarrow> bool" where
  "timers_inv c =
     (list_all (\<lambda>tm. period tm \<noteq> None \<longrightarrow>
          poll_timer c = Some (timer_id tm) \<or> snapshot_timer c = Some (timer_id tm)) (timers c) \<and>
      list_all (\<lambda>tm. callback tm = FetchData \<longrightarrow> poll_timer c = Some (timer_id tm)) (timers c) \<and>
      (poll_timer c = None \<longrightarrow> stop c))"

definition torn_down :: "component \<Rightarrow> bool" where
  "torn_down c =
     (stop c \<and> poll_timer c = None \<and> snapshot_timer c = None \<and>
      list_all (\<lambda>tm. period tm = None \<and> callback tm \<noteq> FetchData) (timers c))"


text \<open>While the rows are empty, every pending closure of \<^verbatim>\<open>maybeSnapshot\<close> holds empty
  rows.\<close>

definition empty_closures :: "component \<Rightarrow> bool" where
  "empty_closures c =
     (rows c = [] \<longrightarrow>
        list_all (\<lambda>tm. callback tm = FetchData \<or> callback tm = MaybeSnapshot []) (timers c))"


section \<open>The component of the unnamed source file: top provers by cycles\<close>










text \<open>Writing a property: an own property keeps its place, a new one goes to the end.\<close>

fun put :: "'k \<Rightarrow> 'v \<Rightarrow> ('k \<times> 'v) list \<Rightarrow> ('k \<times> 'v) list" where
  "put k v [] = [(k, v)]"
| "put k v (p # ps) = (if fst p = k then (k, v) # ps else p # put k v ps)"















section \<open>Sample values\<close>

text \<open>\<open>utc y mo d h mi\<close> is the date \<^verbatim>\<open>new Date(Date.UTC(y, mo, d, h, mi))\<close>.\<close>

definition utc :: "int \<Rightarrow> nat \<Rightarrow> nat \<Rightarrow> nat \<Rightarrow> nat \<Rightarrow> utc_date" where
  "utc y mo d h mi =
     \<lparr>utcFullYear = y, utcMonth = mo, utcDate = d, utcHours = h, utcMinutes = mi,
      utcSeconds = 0, utcMilliseconds = 0\<rparr>"

text \<open>A browser with empty, working storage and no endpoint; and one where the storage
  throws and the configured endpoint cannot be reached.\<close>

definition quiet_browser :: browser where
  "quiet_browser =
     \<lparr>localStorage = \<lparr>item = None, getItem_throws = False, setItem_throws = False\<rparr>,
      vite_metrics_endpoint = None, window_metrics_endpoint = None, fetch_rejects = False,
      posted = [], console_warn = []\<rparr>"

definition failing_browser :: browser where
  "failing_browser =
     \<lparr>localStorage = \<lparr>item = None, getItem_throws = True, setItem_throws = True\<rparr>,
      vite_metrics_endpoint = Some ''https://sink.example/metrics'',
      window_metrics_endpoint = None, fetch_rejects = True,
      posted = [], console_warn = []\<rparr>"

definition sample_rows :: "metrics_row list" where
  "sample_rows =
     [\<lparr>label = ''Prover 1'', addr = ''0x6220892679110898abd78847d6f0a639e3408dc7'',
       orders_taken = Fin 7, cycles_proved = Fin 12.5\<rparr>]"

definition sample_snapshot :: "string \<Rightarrow> snapshot" where
  "sample_snapshot k = \<lparr>bucket = k, captured_at = k, provers = sample_rows\<rparr>"

text \<open>A clock on which it is always 10:00 UTC on 15 March 2025; a response with one row,
  for the second prover, and the table built from it.\<close>

definition ten_oclock :: "nat \<Rightarrow> utc_date" where
  "ten_oclock t = utc 2025 2 15 10 0"

definition prover2_row :: api_row where
  "prover2_row =
     \<lparr>r_prover_addr = JString ''0x34A2DF023B535C1BD79A791B259ADEA947F603E3'',
      r_orders_taken = JString ''41'', r_cycles_proved = JString ''12.5K''\<rparr>"

definition prover2_table :: "metrics_row list" where
  "prover2_table =
     [\<lparr>label = ''Prover 1'', addr = ''0x6220892679110898abd78847d6f0a639e3408dc7'',
       orders_taken = Fin 0, cycles_proved = Fin 0\<rparr>,
      \<lparr>label = ''Prover 2'', addr = ''0x34a2df023b535c1bd79a791b259adea947f603e3'',
       orders_taken = Fin 41, cycles_proved = Fin 12.5\<rparr>,
      \<lparr>label = ''Prover 3'', addr = ''0x11973257c9210d852084f7b97f672080c1dbbb53'',
       orders_taken = Fin 0, cycles_proved = Fin 0\<rparr>]"





section \<open>Properties of the eligibility window\<close>

lemma smod_two_eq_zero_iff: "((k::int) smod 2 = 0) = even k"
  by (auto simp: signed_modulo_int_def sgn_if elim: evenE oddE)

text \<open>
  Claim C2.  For every time with UTC hour \<open>h\<close> and UTC minute \<open>m\<close>, \<open>isSnapshotWindow\<close>
  is true exactly when \<open>(h - 10 + 24) mod 2 = 0\<close> and \<open>m < 5\<close>; equivalently exactly at
  minutes 0 to 4 of an even UTC hour, so it is false in every odd hour and from minute
  5 on.
\<close>

theorem isSnapshotWindow_iff:
  "isSnapshotWindow now =
     ((int (utcHours now) - 10 + 24) mod 2 = 0 \<and> utcMinutes now < 5) \<and>
   isSnapshotWindow now = (even (utcHours now) \<and> utcMinutes now < 5)"
  by (auto simp: isSnapshotWindow_def Let_def smod_two_eq_zero_iff)

theorem isSnapshotWindow_iff_witness:
  "isSnapshotWindow \<lparr>utcFullYear = 2025, utcMonth = 9, utcDate = 29, utcHours = 12,
      utcMinutes = 4, utcSeconds = 59, utcMilliseconds = 999\<rparr> \<and>
   \<not> isSnapshotWindow \<lparr>utcFullYear = 2025, utcMonth = 9, utcDate = 29, utcHours = 12,
      utcMinutes = 5, utcSeconds = 0, utcMilliseconds = 0\<rparr> \<and>
   \<not> isSnapshotWindow \<lparr>utcFullYear = 2025, utcMonth = 9, utcDate = 29, utcHours = 13,
      utcMinutes = 0, utcSeconds = 0, utcMilliseconds = 0\<rparr>"
  using isSnapshotWindow_iff [of "\<lparr>utcFullYear = 2025, utcMonth = 9, utcDate = 29,
      utcHours = 12, utcMinutes = 4, utcSeconds = 59, utcMilliseconds = 999\<rparr>"]
    isSnapshotWindow_iff [of "\<lparr>utcFullYear = 2025, utcMonth = 9, utcDate = 29,
      utcHours = 12, utcMinutes = 5, utcSeconds = 0, utcMilliseconds = 0\<rparr>"]
    isSnapshotWindow_iff [of "\<lparr>utcFullYear = 2025, utcMonth = 9, utcDate = 29,
      utcHours = 13, utcMinutes = 0, utcSeconds = 0, utcMilliseconds = 0\<rparr>"]
  by simp

section \<open>Decimal strings\<close>

lemma lt10_cases: "d < 10 \<Longrightarrow> d \<in> {0, 1, 2, 3, 4, 5, 6, 7, 8, 9::nat}"
  by auto

lemma is_digit_digit_char: "d < 10 \<Longrightarrow> is_digit (digit_char d)"
  using lt10_cases [of d] by (auto simp: is_digit_def digit_char_def)

lemma digit_val_digit_char: "d < 10 \<Longrightarrow> digit_val (digit_char d) = d"
  using lt10_cases [of d] by (auto simp: digit_val_def digit_char_def)

lemma digits_val_snoc: "digits_val (s @ [c]) = 10 * digits_val s + digit_val c"
  by (simp add: digits_val_def)

lemma digits_val_nat_to_string: "digits_val (nat_to_string n) = n"
proof (induction n rule: nat_to_string.induct)
  case (1 n)
  show ?case
  proof (cases "n < 10")
    case True
    then show ?thesis
      by (simp add: nat_to_string.simps [of n] digits_val_def digit_val_digit_char)
  next
    case False
    with 1 show ?thesis
      by (simp add: nat_to_string.simps [of n] digits_val_snoc digit_val_digit_char)
  qed
qed

lemma digits_nat_to_string: "list_all is_digit (nat_to_string n)"
proof (induction n rule: nat_to_string.induct)
  case (1 n)
  show ?case
  proof (cases "n < 10")
    case True
    then show ?thesis
      by (simp add: nat_to_string.simps [of n] is_digit_digit_char)
  next
    case False
    with 1 show ?thesis
      by (simp add: nat_to_string.simps [of n] is_digit_digit_char)
  qed
qed


lemma nat_to_string_inj: "nat_to_string m = nat_to_string n \<Longrightarrow> m = n"
  by (metis digits_val_nat_to_string)

lemma digit_val_zero: "digit_val CHR ''0'' = 0"
  by (simp add: digit_val_def)

lemma digits_val_replicate_zero: "foldl (\<lambda>acc c. 10 * acc + digit_val c) 0 (replicate k CHR ''0'') = 0"
  by (induction k) (simp_all add: digit_val_zero)

lemma digits_val_padStart: "digits_val (padStart k CHR ''0'' s) = digits_val s"
  by (simp add: padStart_def digits_val_def digits_val_replicate_zero)

lemma padStart_nat_to_string_inj:
  "padStart k CHR ''0'' (nat_to_string m) = padStart k CHR ''0'' (nat_to_string n) \<Longrightarrow> m = n"
  by (metis digits_val_padStart digits_val_nat_to_string)

lemma length_nat_to_string_lt10: "n < 10 \<Longrightarrow> length (nat_to_string n) = 1"
  by (simp add: nat_to_string.simps [of n])

lemma length_nat_to_string_step:
  "10 \<le> n \<Longrightarrow> length (nat_to_string n) = Suc (length (nat_to_string (n div 10)))"
  by (simp add: nat_to_string.simps [of n])

lemma length_nat_to_string_lt100: "n < 100 \<Longrightarrow> length (nat_to_string n) \<le> 2"
  by (cases "n < 10") (simp_all add: length_nat_to_string_lt10 length_nat_to_string_step)

lemma length_pad2: "n < 100 \<Longrightarrow> length (padStart 2 CHR ''0'' (nat_to_string n)) = 2"
  using length_nat_to_string_lt100 [of n] by (simp add: padStart_def)










lemma not_digit_minus: "\<not> is_digit CHR ''-''"
  by (simp add: is_digit_def)

lemma is_digit_zero: "is_digit CHR ''0''"
  by (simp add: is_digit_def)

lemma nat_to_string_not_minus: "nat_to_string n \<noteq> CHR ''-'' # s"
  using digits_nat_to_string [of n] not_digit_minus by auto

lemma int_to_string_inj:
  assumes "int_to_string a = int_to_string b"
  shows "a = b"
proof (cases "a < 0")
  case a: True
  show ?thesis
  proof (cases "b < 0")
    case True
    with a assms have "nat_to_string (nat (- a)) = nat_to_string (nat (- b))"
      by (simp add: int_to_string_def)
    then have "nat (- a) = nat (- b)" by (rule nat_to_string_inj)
    with a True show ?thesis by arith
  next
    case False
    with a assms have "nat_to_string (nat b) = CHR ''-'' # nat_to_string (nat (- a))"
      by (simp add: int_to_string_def)
    then show ?thesis by (simp add: nat_to_string_not_minus)
  qed
next
  case a: False
  show ?thesis
  proof (cases "b < 0")
    case True
    with a assms have "nat_to_string (nat a) = CHR ''-'' # nat_to_string (nat (- b))"
      by (simp add: int_to_string_def)
    then show ?thesis by (simp add: nat_to_string_not_minus)
  next
    case False
    with a assms have "nat_to_string (nat a) = nat_to_string (nat b)"
      by (simp add: int_to_string_def)
    then have "nat a = nat b" by (rule nat_to_string_inj)
    with a False show ?thesis by arith
  qed
qed

lemma digits_pad: "list_all is_digit (padStart k CHR ''0'' (nat_to_string n))"
  using digits_nat_to_string [of n] by (auto simp: padStart_def list_all_iff is_digit_zero)

lemma pad2_form:
  assumes "n < 100"
  obtains c1 c2 where "padStart 2 CHR ''0'' (nat_to_string n) = [c1, c2]" "is_digit c1" "is_digit c2"
proof -
  from length_pad2 [OF assms] obtain c1 c2 where e: "padStart 2 CHR ''0'' (nat_to_string n) = [c1, c2]"
    by (auto simp: length_Suc_conv numeral_2_eq_2)
  with digits_pad [of 2 n] have "is_digit c1" "is_digit c2" by simp_all
  with e that show thesis by blast
qed

lemma key_split: "snapshotBucketKey now = int_to_string (utcFullYear now) @ key_tail now"
  by (simp add: snapshotBucketKey_def key_tail_def Let_def)

lemma key_tail_form:
  assumes "valid_date now"
  obtains m1 m2 d1 d2 h1 h2 where
    "padStart 2 CHR ''0'' (nat_to_string (utcMonth now + 1)) = [m1, m2]"
    "padStart 2 CHR ''0'' (nat_to_string (utcDate now)) = [d1, d2]"
    "padStart 2 CHR ''0'' (nat_to_string (utcHours now)) = [h1, h2]"
    "key_tail now = [CHR ''-'', m1, m2, CHR ''-'', d1, d2, CHR ''T'', h1, h2,
        CHR '':'', CHR ''0'', CHR ''0'', CHR ''Z'']"
    "is_digit m1" "is_digit m2" "is_digit d1" "is_digit d2" "is_digit h1" "is_digit h2"
proof -
  from assms have "utcMonth now + 1 < 100" "utcDate now < 100" "utcHours now < 100"
    by (simp_all add: valid_date_def)
  then obtain m1 m2 d1 d2 h1 h2 where
    m: "padStart 2 CHR ''0'' (nat_to_string (utcMonth now + 1)) = [m1, m2]" "is_digit m1" "is_digit m2" and
    d: "padStart 2 CHR ''0'' (nat_to_string (utcDate now)) = [d1, d2]" "is_digit d1" "is_digit d2" and
    h: "padStart 2 CHR ''0'' (nat_to_string (utcHours now)) = [h1, h2]" "is_digit h1" "is_digit h2"
    by (metis pad2_form)
  have "key_tail now = [CHR ''-'', m1, m2, CHR ''-'', d1, d2, CHR ''T'', h1, h2,
        CHR '':'', CHR ''0'', CHR ''0'', CHR ''Z'']"
    unfolding key_tail_def m(1) d(1) h(1) by simp
  then show thesis
    by (rule that [OF m(1) d(1) h(1) _ m(2,3) d(2,3) h(2,3)])
qed

lemma key_tail_inj:
  assumes "valid_date a" "valid_date b" "key_tail a = key_tail b"
  shows "utcMonth a = utcMonth b \<and> utcDate a = utcDate b \<and> utcHours a = utcHours b"
proof -
  from assms(1) obtain m1 m2 d1 d2 h1 h2 where a:
    "padStart 2 CHR ''0'' (nat_to_string (utcMonth a + 1)) = [m1, m2]"
    "padStart 2 CHR ''0'' (nat_to_string (utcDate a)) = [d1, d2]"
    "padStart 2 CHR ''0'' (nat_to_string (utcHours a)) = [h1, h2]"
    "key_tail a = [CHR ''-'', m1, m2, CHR ''-'', d1, d2, CHR ''T'', h1, h2,
        CHR '':'', CHR ''0'', CHR ''0'', CHR ''Z'']"
    by (rule key_tail_form)
  from assms(2) obtain m1' m2' d1' d2' h1' h2' where b:
    "padStart 2 CHR ''0'' (nat_to_string (utcMonth b + 1)) = [m1', m2']"
    "padStart 2 CHR ''0'' (nat_to_string (utcDate b)) = [d1', d2']"
    "padStart 2 CHR ''0'' (nat_to_string (utcHours b)) = [h1', h2']"
    "key_tail b = [CHR ''-'', m1', m2', CHR ''-'', d1', d2', CHR ''T'', h1', h2',
        CHR '':'', CHR ''0'', CHR ''0'', CHR ''Z'']"
    by (rule key_tail_form)
  from assms(3) a(4) b(4) have "[m1, m2] = [m1', m2']" "[d1, d2] = [d1', d2']" "[h1, h2] = [h1', h2']"
    by simp_all
  with a(1-3) b(1-3) have
    "padStart 2 CHR ''0'' (nat_to_string (utcMonth a + 1)) = padStart 2 CHR ''0'' (nat_to_string (utcMonth b + 1))"
    "padStart 2 CHR ''0'' (nat_to_string (utcDate a)) = padStart 2 CHR ''0'' (nat_to_string (utcDate b))"
    "padStart 2 CHR ''0'' (nat_to_string (utcHours a)) = padStart 2 CHR ''0'' (nat_to_string (utcHours b))"
    by simp_all
  then have "utcMonth a + 1 = utcMonth b + 1" "utcDate a = utcDate b" "utcHours a = utcHours b"
    using padStart_nat_to_string_inj by blast+
  then show ?thesis by simp
qed

lemma length_key_tail: "valid_date now \<Longrightarrow> length (key_tail now) = 13"
  by (erule key_tail_form) simp

lemma snapshotBucketKey_inj:
  assumes "valid_date a" "valid_date b" "snapshotBucketKey a = snapshotBucketKey b"
  shows "same_utc_hour a b"
proof -
  from assms(3) have "int_to_string (utcFullYear a) @ key_tail a = int_to_string (utcFullYear b) @ key_tail b"
    by (simp add: key_split)
  moreover have "length (key_tail a) = length (key_tail b)"
    using assms(1,2) by (simp add: length_key_tail)
  ultimately have "int_to_string (utcFullYear a) = int_to_string (utcFullYear b)" "key_tail a = key_tail b"
    by simp_all
  with key_tail_inj [OF assms(1,2)] int_to_string_inj show ?thesis
    by (simp add: same_utc_hour_def)
qed

lemma same_utc_hour_key: "same_utc_hour a b \<Longrightarrow> snapshotBucketKey a = snapshotBucketKey b"
  by (simp add: same_utc_hour_def snapshotBucketKey_def)



section \<open>Persistence and the scheduler step\<close>

lemma persistSnapshot_returns: "\<exists>b'. persistSnapshot s b = Inr b'"
  by (simp add: persistSnapshot_def Let_def split: sum.splits option.splits)

lemma maybeSnapshot_returns: "\<exists>st'. maybeSnapshot rs now st = Inr st'"
  by (simp add: maybeSnapshot_def Let_def split: sum.splits)

lemma run_ticks_returns: "\<exists>st'. run_ticks ts st = Inr st'"
proof (induction ts arbitrary: st)
  case Nil
  show ?case by simp
next
  case (Cons t ts)
  obtain st1 where "maybeSnapshot (fst t) (snd t) st = Inr st1"
    using maybeSnapshot_returns by blast
  with Cons.IH [of st1] show ?case by simp
qed

lemma storage_block_ok:
  assumes "\<not> getItem_throws ls" "\<not> setItem_throws ls" "parse_stored (item ls) = Inr xs"
  shows "storage_block s ls = Inr (ls\<lparr>item := Some (JsonArray (most_recent 1000 (xs @ [s])))\<rparr>)"
  using assms by (simp add: storage_block_def most_recent_def Let_def)

lemma storage_block_cases:
  "storage_block s ls = Inr ls' \<Longrightarrow>
     \<exists>xs. parse_stored (item ls) = Inr xs \<and> ls' = ls\<lparr>item := Some (JsonArray (most_recent 1000 (xs @ [s])))\<rparr>"
  by (auto simp: storage_block_def most_recent_def Let_def split: if_splits sum.splits)

lemma localStorage_persistSnapshot:
  "persistSnapshot s b = Inr b' \<Longrightarrow>
     localStorage b' = (case storage_block s (localStorage b) of Inr ls \<Rightarrow> ls | Inl e \<Rightarrow> localStorage b)"
  by (auto simp: persistSnapshot_def post_block_def Let_def split: sum.splits option.splits if_splits)

lemma length_most_recent: "length (most_recent n xs) = min n (length xs)"
  by (auto simp: most_recent_def)

lemma maybeSnapshot_new_bucket:
  assumes "length rs \<noteq> 0" "isSnapshotWindow now" "lastBucketRef st \<noteq> Some (snapshotBucketKey now)"
  shows "\<exists>st' p. maybeSnapshot rs now st = Inr st' \<and>
           lastBucketRef st' = Some (snapshotBucketKey now) \<and>
           history st' = history st @ [Remember (snapshotBucketKey now), Persist p] \<and>
           bucket p = snapshotBucketKey now \<and> captured_at p = toISOString now \<and> provers p = rs \<and>
           persistSnapshot p (browser st) = Inr (browser st')"
proof -
  let ?p = "\<lparr>bucket = snapshotBucketKey now, captured_at = toISOString now, provers = rs\<rparr>"
  obtain b' where "persistSnapshot ?p (browser st) = Inr b'"
    using persistSnapshot_returns by blast
  moreover have "map (\<lambda>r. \<lparr>label = label r, addr = addr r, orders_taken = orders_taken r,
      cycles_proved = cycles_proved r\<rparr>) rs = rs"
    by (induction rs) simp_all
  ultimately show ?thesis using assms
    by (simp add: maybeSnapshot_def Let_def)
qed

lemma maybeSnapshot_skip:
  "length rs = 0 \<or> \<not> isSnapshotWindow now \<or> lastBucketRef st = Some (snapshotBucketKey now) \<Longrightarrow>
     maybeSnapshot rs now st = Inr st"
  by (auto simp: maybeSnapshot_def Let_def)

section \<open>Runs of the scheduler\<close>

lemma hour_fields_eq_iff: "(hour_fields a = hour_fields b) = same_utc_hour a b"
  by (auto simp: hour_fields_def same_utc_hour_def)

lemma prod_le_fst: "(x :: 'a :: order, r :: 'b :: order) \<le> (y, r') \<Longrightarrow> x \<le> y"
  by (auto simp: less_eq_prod_def)

lemma not_after_hour_fields: "not_after a b \<Longrightarrow> hour_fields a \<le> hour_fields b"
  unfolding not_after_def by (rule prod_le_fst)

lemma persisted_append: "persisted (xs @ ys) = persisted xs @ persisted ys"
  by (induction xs rule: persisted.induct) simp_all

lemma sorted_wrt_last_max:
  "sorted_wrt (\<lambda>a b. hour_fields a < hour_fields b) ds \<Longrightarrow> d \<in> set ds \<Longrightarrow>
     hour_fields d \<le> hour_fields (last ds)"
proof (induction ds)
  case Nil
  then show ?case by simp
next
  case (Cons x xs)
  then show ?case by (cases "xs = []") (auto simp: less_imp_le)
qed

lemma dedup_inv_step:
  assumes inv: "dedup_inv ds st"
    and v: "valid_date now"
    and le: "\<forall>d\<in>set ds. hour_fields d \<le> hour_fields now"
    and step: "maybeSnapshot rs now st = Inr st'"
  shows "\<exists>ds'. dedup_inv ds' st' \<and> (\<forall>d\<in>set ds'. hour_fields d \<le> hour_fields now)"
proof (cases "length rs = 0 \<or> \<not> isSnapshotWindow now \<or> lastBucketRef st = Some (snapshotBucketKey now)")
  case True
  from maybeSnapshot_skip [OF True] step have "st' = st" by simp
  with inv le show ?thesis by blast
next
  case False
  then have new: "length rs \<noteq> 0" "isSnapshotWindow now" "lastBucketRef st \<noteq> Some (snapshotBucketKey now)"
    by simp_all
  from maybeSnapshot_new_bucket [OF new] step obtain p where
    p: "lastBucketRef st' = Some (snapshotBucketKey now)"
      "history st' = history st @ [Remember (snapshotBucketKey now), Persist p]"
      "bucket p = snapshotBucketKey now"
    by auto
  have lt: "hour_fields d < hour_fields now" if d: "d \<in> set ds" for d
  proof -
    from d have ne: "ds \<noteq> []" by auto
    with inv new(3) have "snapshotBucketKey (last ds) \<noteq> snapshotBucketKey now"
      by (simp add: dedup_inv_def)
    then have "hour_fields (last ds) \<noteq> hour_fields now"
      using same_utc_hour_key [of "last ds" now] by (auto simp: hour_fields_eq_iff)
    moreover from le ne have "hour_fields (last ds) \<le> hour_fields now" by simp
    moreover from inv d have "hour_fields d \<le> hour_fields (last ds)"
      by (simp add: dedup_inv_def sorted_wrt_last_max)
    ultimately show ?thesis by simp
  qed
  have "dedup_inv (ds @ [now]) st'"
    using inv v p lt by (simp add: dedup_inv_def persisted_append sorted_wrt_append)
  moreover have "\<forall>d\<in>set (ds @ [now]). hour_fields d \<le> hour_fields now"
    using le by simp
  ultimately show ?thesis by blast
qed

lemma dedup_inv_run:
  assumes "dedup_inv ds st"
    and "list_all (\<lambda>t. valid_date (snd t)) ts"
    and "sorted_wrt not_after (map snd ts)"
    and "\<forall>d\<in>set ds. \<forall>t\<in>set ts. hour_fields d \<le> hour_fields (snd t)"
    and "run_ticks ts st = Inr st'"
  shows "\<exists>ds'. dedup_inv ds' st'"
  using assms
proof (induction ts arbitrary: ds st)
  case Nil
  then show ?case by auto
next
  case (Cons t ts)
  from Cons.prems(5) obtain st1 where
    st1: "maybeSnapshot (fst t) (snd t) st = Inr st1" and rest: "run_ticks ts st1 = Inr st'"
    by (auto split: sum.splits)
  from Cons.prems(2) have v: "valid_date (snd t)" by simp
  from Cons.prems(4) have le: "\<forall>d\<in>set ds. hour_fields d \<le> hour_fields (snd t)" by simp
  from dedup_inv_step [OF Cons.prems(1) v le st1] obtain ds1 where
    ds1: "dedup_inv ds1 st1" "\<forall>d\<in>set ds1. hour_fields d \<le> hour_fields (snd t)"
    by blast
  have "\<forall>d\<in>set ds1. \<forall>u\<in>set ts. hour_fields d \<le> hour_fields (snd u)"
  proof (intro ballI)
    fix d u assume "d \<in> set ds1" "u \<in> set ts"
    with ds1(2) Cons.prems(3) have "hour_fields d \<le> hour_fields (snd t)" "not_after (snd t) (snd u)"
      by auto
    then show "hour_fields d \<le> hour_fields (snd u)"
      using not_after_hour_fields order_trans by blast
  qed
  moreover from Cons.prems(2,3) have "list_all (\<lambda>t. valid_date (snd t)) ts" "sorted_wrt not_after (map snd ts)"
    by simp_all
  ultimately show ?case
    using Cons.IH [OF ds1(1) _ _ _ rest] by blast
qed

lemma dedup_inv_distinct:
  assumes "dedup_inv ds st"
  shows "distinct (map bucket (persisted (history st)))"
proof -
  have "distinct (map snapshotBucketKey ds)"
    if "sorted_wrt (\<lambda>a b. hour_fields a < hour_fields b) ds" "list_all valid_date ds"
    using that
  proof (induction ds)
    case Nil
    show ?case by simp
  next
    case (Cons d ds)
    have "snapshotBucketKey d \<noteq> snapshotBucketKey e" if e: "e \<in> set ds" for e
    proof
      assume "snapshotBucketKey d = snapshotBucketKey e"
      moreover from Cons.prems(2) e have "valid_date d" "valid_date e"
        by (simp_all add: list_all_iff)
      ultimately have "hour_fields d = hour_fields e"
        using snapshotBucketKey_inj by (simp add: hour_fields_eq_iff)
      with Cons.prems(1) e show False by auto
    qed
    with Cons show ?case by auto
  qed
  with assms show ?thesis by (simp add: dedup_inv_def)
qed

lemma dedup_inv_fresh: "dedup_inv [] (fresh b)"
  by (simp add: dedup_inv_def fresh_def)

lemma run_ticks_distinct:
  assumes "list_all (\<lambda>t. valid_date (snd t)) ts" "sorted_wrt not_after (map snd ts)"
  shows "\<exists>st'. run_ticks ts (fresh b) = Inr st' \<and> distinct (map bucket (persisted (history st')))"
proof -
  obtain st' where r: "run_ticks ts (fresh b) = Inr st'"
    using run_ticks_returns by blast
  from dedup_inv_run [OF dedup_inv_fresh assms _ r] obtain ds where "dedup_inv ds st'"
    by auto
  with r dedup_inv_distinct show ?thesis by blast
qed

lemma key_utc_10: "snapshotBucketKey (utc 2025 2 15 10 mi) = ''2025-03-15T10:00Z''"
  by (simp add: utc_def snapshotBucketKey_def int_to_string_def nat_to_string.simps
      digit_char_def padStart_def)

lemma key_utc_12: "snapshotBucketKey (utc 2025 2 15 12 mi) = ''2025-03-15T12:00Z''"
  by (simp add: utc_def snapshotBucketKey_def int_to_string_def nat_to_string.simps
      digit_char_def padStart_def)

lemma window_utc: "isSnapshotWindow (utc y mo d h mi) = (even h \<and> mi < 5)"
  by (simp add: utc_def isSnapshotWindow_def smod_two_eq_zero_iff)

lemma history_maybeSnapshot:
  "maybeSnapshot rs now st = Inr st' \<Longrightarrow>
   history st' =
     (if length rs = 0 \<or> \<not> isSnapshotWindow now \<or> lastBucketRef st = Some (snapshotBucketKey now)
      then history st
      else history st @ [Remember (snapshotBucketKey now),
             Persist \<lparr>bucket = snapshotBucketKey now, captured_at = toISOString now, provers = rs\<rparr>])"
  using maybeSnapshot_skip [of rs now st] maybeSnapshot_new_bucket [of rs now st]
  by (auto split: if_splits)


section \<open>The bucket key\<close>




section \<open>The capped log\<close>

text \<open>
  Claim C4.  \<open>persistSnapshot\<close> always returns, and leaves the stored item either as it
  was (the \<^verbatim>\<open>try\<close> block threw) or as the array of the last 1000 entries of the old log
  with the snapshot appended; with storage that reads and writes, the second.  That
  array has at most 1000 entries; when the old log had 1000 or more it has exactly 1000,
  the last 999 old ones in their order and then the new one; when the old log had fewer,
  nothing is dropped.
\<close>

theorem persistSnapshot_log_cap:
  "(\<exists>b'. persistSnapshot s b = Inr b' \<and>
      (item (localStorage b') = item (localStorage b) \<or>
       (\<exists>ys. parse_stored (item (localStorage b)) = Inr ys \<and>
          item (localStorage b') = Some (JsonArray (most_recent 1000 (ys @ [s])))))) \<and>
   (\<not> getItem_throws (localStorage b) \<and> \<not> setItem_throws (localStorage b) \<and>
    parse_stored (item (localStorage b)) = Inr xs \<longrightarrow>
      (\<exists>b'. persistSnapshot s b = Inr b' \<and>
         item (localStorage b') = Some (JsonArray (most_recent 1000 (xs @ [s]))))) \<and>
   length (most_recent 1000 (xs @ [s])) \<le> 1000 \<and>
   (1000 \<le> length xs \<longrightarrow>
      length (most_recent 1000 (xs @ [s])) = 1000 \<and>
      most_recent 1000 (xs @ [s]) = most_recent 999 xs @ [s]) \<and>
   (length xs < 1000 \<longrightarrow> most_recent 1000 (xs @ [s]) = xs @ [s])"
proof -
  obtain b' where b': "persistSnapshot s b = Inr b'"
    using persistSnapshot_returns by blast
  have 1: "item (localStorage b') = item (localStorage b) \<or>
       (\<exists>ys. parse_stored (item (localStorage b)) = Inr ys \<and>
          item (localStorage b') = Some (JsonArray (most_recent 1000 (ys @ [s]))))"
  proof (cases "storage_block s (localStorage b)")
    case (Inl e)
    with localStorage_persistSnapshot [OF b'] show ?thesis by simp
  next
    case (Inr ls)
    from storage_block_cases [OF Inr] localStorage_persistSnapshot [OF b'] Inr show ?thesis
      by auto
  qed
  have 2: "item (localStorage b') = Some (JsonArray (most_recent 1000 (xs @ [s])))"
    if "\<not> getItem_throws (localStorage b)" "\<not> setItem_throws (localStorage b)"
      "parse_stored (item (localStorage b)) = Inr xs"
    using localStorage_persistSnapshot [OF b'] storage_block_ok [OF that, of s] by simp
  have 3: "most_recent 1000 (xs @ [s]) = most_recent 999 xs @ [s]" if "1000 \<le> length xs"
    using that by (simp add: most_recent_def)
  from b' 1 2 3 show ?thesis
    by (auto simp: length_most_recent most_recent_def)
qed

theorem persistSnapshot_log_cap_witness:
  "(\<exists>b'. persistSnapshot (sample_snapshot ''new'')
           (quiet_browser\<lparr>localStorage := \<lparr>item = Some (JsonArray
              (sample_snapshot ''oldest'' # replicate 999 (sample_snapshot ''old''))),
              getItem_throws = False, setItem_throws = False\<rparr>\<rparr>) = Inr b' \<and>
      item (localStorage b') =
        Some (JsonArray (replicate 999 (sample_snapshot ''old'') @ [sample_snapshot ''new'']))) \<and>
   length (replicate 999 (sample_snapshot ''old'') @ [sample_snapshot ''new'']) = 1000"
  using persistSnapshot_log_cap [of "sample_snapshot ''new''"
      "quiet_browser\<lparr>localStorage := \<lparr>item = Some (JsonArray
         (sample_snapshot ''oldest'' # replicate 999 (sample_snapshot ''old''))),
         getItem_throws = False, setItem_throws = False\<rparr>\<rparr>"
      "sample_snapshot ''oldest'' # replicate 999 (sample_snapshot ''old'')"]
  by (simp add: parse_stored_def most_recent_def)

section \<open>The scheduler\<close>


text \<open>
  Claim C3.  Whatever the browser does (storage that throws, an endpoint that cannot be
  reached), a tick with rows, inside the window and with a bucket other than the
  remembered one returns normally; it writes the bucket to \<open>lastBucketRef\<close> first and
  calls \<open>persistSnapshot\<close> second, and the bucket stays remembered in the session it
  returns.  \<open>persistSnapshot\<close> never rejects, and every later run of ticks returns too.
\<close>

theorem maybeSnapshot_survives_failures:
  "(\<exists>b'. persistSnapshot p b = Inr b') \<and>
   (length rs \<noteq> 0 \<and> isSnapshotWindow now \<and>
    lastBucketRef st \<noteq> Some (snapshotBucketKey now) \<longrightarrow>
      (\<exists>st' q. maybeSnapshot rs now st = Inr st' \<and>
         lastBucketRef st' = Some (snapshotBucketKey now) \<and>
         history st' = history st @ [Remember (snapshotBucketKey now), Persist q] \<and>
         bucket q = snapshotBucketKey now \<and>
         (\<forall>ts. \<exists>st''. run_ticks ts st' = Inr st'')))"
  using persistSnapshot_returns [of p b] maybeSnapshot_new_bucket [of rs now st]
    run_ticks_returns
  by blast

theorem maybeSnapshot_survives_failures_witness:
  "length sample_rows \<noteq> 0 \<and> isSnapshotWindow (utc 2025 2 15 10 0) \<and>
   lastBucketRef (fresh failing_browser) \<noteq> Some (snapshotBucketKey (utc 2025 2 15 10 0)) \<and>
   (\<exists>st'. maybeSnapshot sample_rows (utc 2025 2 15 10 0) (fresh failing_browser) = Inr st' \<and>
      lastBucketRef st' = Some ''2025-03-15T10:00Z'' \<and>
      item (localStorage (browser st')) = None \<and> posted (browser st') = [] \<and>
      console_warn (browser st') =
        [''Failed to persist to localStorage'', ''Failed to POST snapshot to backend'']) \<and>
   (\<exists>st''. run_ticks [(sample_rows, utc 2025 2 15 12 0)]
            \<lparr>lastBucketRef = Some ''2025-03-15T10:00Z'', browser = quiet_browser, history = []\<rparr> =
          Inr st'' \<and>
      lastBucketRef st'' = Some ''2025-03-15T12:00Z'')"
  using maybeSnapshot_survives_failures [of "sample_snapshot ''x''" failing_browser sample_rows
      "utc 2025 2 15 10 0" "fresh failing_browser"]
  by (simp add: fresh_def maybeSnapshot_def window_utc key_utc_10 key_utc_12
      sample_rows_def persistSnapshot_def storage_block_def parse_stored_def resolve_endpoint_def
      post_block_def quiet_browser_def failing_browser_def Let_def)

text \<open>
  Claim C1, as stated, promises at most one snapshot for every bucket key within a
  session.  The scheduler remembers one bucket only, the last one written: when the
  clock is set back after a later bucket was written, the earlier bucket is written
  again.
\<close>

theorem scheduler_clock_set_back:
  "buckets_of_run
     [(sample_rows, utc 2025 2 15 10 0), (sample_rows, utc 2025 2 15 12 0),
      (sample_rows, utc 2025 2 15 10 3)] quiet_browser =
     [''2025-03-15T10:00Z'', ''2025-03-15T12:00Z'', ''2025-03-15T10:00Z''] \<and>
   \<not> distinct (buckets_of_run
     [(sample_rows, utc 2025 2 15 10 0), (sample_rows, utc 2025 2 15 12 0),
      (sample_rows, utc 2025 2 15 10 3)] quiet_browser)"
  by (simp add: buckets_of_run_def fresh_def maybeSnapshot_def window_utc key_utc_10 key_utc_12
      sample_rows_def persistSnapshot_def storage_block_def parse_stored_def resolve_endpoint_def
      quiet_browser_def Let_def)

text \<open>
  Claim C1, amended.  A tick whose bucket is the remembered one does nothing.  A tick
  with rows, inside the window and with another bucket hands exactly one snapshot to
  \<open>persistSnapshot\<close>, with that bucket, and remembers the bucket.  Over any run of a
  fresh session in which the times read at the ticks never decrease, the snapshots
  handed over have pairwise different buckets: at most one per bucket key.
\<close>

theorem scheduler_one_snapshot_per_bucket:
  "(lastBucketRef st = Some (snapshotBucketKey now) \<longrightarrow> maybeSnapshot rs now st = Inr st) \<and>
   (length rs \<noteq> 0 \<and> isSnapshotWindow now \<and>
    lastBucketRef st \<noteq> Some (snapshotBucketKey now) \<longrightarrow>
      (\<exists>st' q. maybeSnapshot rs now st = Inr st' \<and>
         persisted (history st') = persisted (history st) @ [q] \<and>
         bucket q = snapshotBucketKey now \<and>
         lastBucketRef st' = Some (snapshotBucketKey now))) \<and>
   (list_all (\<lambda>t. valid_date (snd t)) ts \<and> sorted_wrt not_after (map snd ts) \<longrightarrow>
      (\<exists>st'. run_ticks ts (fresh b) = Inr st' \<and>
         buckets_of_run ts b = map bucket (persisted (history st')) \<and>
         distinct (buckets_of_run ts b)))"
proof -
  have "\<exists>st' q. maybeSnapshot rs now st = Inr st' \<and>
         persisted (history st') = persisted (history st) @ [q] \<and>
         bucket q = snapshotBucketKey now \<and>
         lastBucketRef st' = Some (snapshotBucketKey now)"
    if "length rs \<noteq> 0" "isSnapshotWindow now" "lastBucketRef st \<noteq> Some (snapshotBucketKey now)"
  proof -
    from maybeSnapshot_new_bucket [OF that] obtain st' q where
      "maybeSnapshot rs now st = Inr st'" "lastBucketRef st' = Some (snapshotBucketKey now)"
      "history st' = history st @ [Remember (snapshotBucketKey now), Persist q]"
      "bucket q = snapshotBucketKey now"
      by blast
    then show ?thesis by (simp add: persisted_append)
  qed
  moreover have "\<exists>st'. run_ticks ts (fresh b) = Inr st' \<and>
         buckets_of_run ts b = map bucket (persisted (history st')) \<and>
         distinct (buckets_of_run ts b)"
    if "list_all (\<lambda>t. valid_date (snd t)) ts" "sorted_wrt not_after (map snd ts)"
    using run_ticks_distinct [OF that, of b] by (auto simp: buckets_of_run_def)
  ultimately show ?thesis
    using maybeSnapshot_skip [of rs now st] by blast
qed

theorem scheduler_one_snapshot_per_bucket_witness:
  "list_all (\<lambda>t. valid_date (snd t))
     [(sample_rows, utc 2025 2 15 10 0), (sample_rows, utc 2025 2 15 10 3),
      (sample_rows, utc 2025 2 15 12 0)] \<and>
   sorted_wrt not_after (map snd
     [(sample_rows, utc 2025 2 15 10 0), (sample_rows, utc 2025 2 15 10 3),
      (sample_rows, utc 2025 2 15 12 0)]) \<and>
   buckets_of_run
     [(sample_rows, utc 2025 2 15 10 0), (sample_rows, utc 2025 2 15 10 3),
      (sample_rows, utc 2025 2 15 12 0)] quiet_browser =
     [''2025-03-15T10:00Z'', ''2025-03-15T12:00Z''] \<and>
   distinct (buckets_of_run
     [(sample_rows, utc 2025 2 15 10 0), (sample_rows, utc 2025 2 15 10 3),
      (sample_rows, utc 2025 2 15 12 0)] quiet_browser)"
proof -
  have v: "list_all (\<lambda>t. valid_date (snd t))
     [(sample_rows, utc 2025 2 15 10 0), (sample_rows, utc 2025 2 15 10 3),
      (sample_rows, utc 2025 2 15 12 0)]"
    by (simp add: utc_def valid_date_def)
  have s: "sorted_wrt not_after (map snd
     [(sample_rows, utc 2025 2 15 10 0), (sample_rows, utc 2025 2 15 10 3),
      (sample_rows, utc 2025 2 15 12 0)])"
    by (simp add: utc_def not_after_def hour_fields_def less_eq_prod_def)
  have e: "buckets_of_run
     [(sample_rows, utc 2025 2 15 10 0), (sample_rows, utc 2025 2 15 10 3),
      (sample_rows, utc 2025 2 15 12 0)] quiet_browser =
     [''2025-03-15T10:00Z'', ''2025-03-15T12:00Z'']"
    by (simp add: buckets_of_run_def fresh_def maybeSnapshot_def window_utc key_utc_10 key_utc_12
        sample_rows_def persistSnapshot_def storage_block_def parse_stored_def
        resolve_endpoint_def quiet_browser_def Let_def)
  from scheduler_one_snapshot_per_bucket [of _ _ _
      "[(sample_rows, utc 2025 2 15 10 0), (sample_rows, utc 2025 2 15 10 3),
        (sample_rows, utc 2025 2 15 12 0)]" quiet_browser] v s
  have "distinct (buckets_of_run
     [(sample_rows, utc 2025 2 15 10 0), (sample_rows, utc 2025 2 15 10 3),
      (sample_rows, utc 2025 2 15 12 0)] quiet_browser)"
    by blast
  with v s e show ?thesis by blast
qed

section \<open>The table built from a response\<close>

lemma byAddr_entry_key: "byAddr_entry r = Inr e \<Longrightarrow> row_key r = Some (fst e)"
  by (cases "js_or (r_prover_addr r) (JString '''')") (auto simp: byAddr_entry_def row_key_def)

lemma map_result_entry:
  "map_result byAddr_entry data = Inr entries \<Longrightarrow> e \<in> set entries \<Longrightarrow>
     \<exists>r\<in>set data. row_key r = Some (fst e)"
proof (induction data arbitrary: entries)
  case Nil
  then show ?case by simp
next
  case (Cons r data)
  from Cons.prems(1) obtain e' es where
    e: "byAddr_entry r = Inr e'" "map_result byAddr_entry data = Inr es" "entries = e' # es"
    by (auto split: sum.splits)
  show ?case
  proof (cases "e = e'")
    case True
    with byAddr_entry_key [OF e(1)] show ?thesis by simp
  next
    case False
    with Cons.prems(2) e(3) have "e \<in> set es" by simp
    from Cons.IH [OF e(2) this] show ?thesis by auto
  qed
qed

lemma byAddr_lookup_missing:
  assumes "map_result byAddr_entry data = Inr entries" "list_all (\<lambda>r. row_key r \<noteq> Some k) data"
  shows "byAddr_lookup entries k = None"
proof -
  have "k \<notin> fst ` set entries"
  proof
    assume "k \<in> fst ` set entries"
    then obtain e where "e \<in> set entries" "fst e = k" by auto
    with map_result_entry [OF assms(1)] obtain r where "r \<in> set data" "row_key r = Some k"
      by blast
    with assms(2) show False by (simp add: list_all_iff)
  qed
  then show ?thesis
    by (simp add: byAddr_lookup_def map_of_eq_None_iff)
qed

lemma fetchData_table_shape:
  assumes "fetchData_table data = Inr t"
  shows "length t = 3 \<and>
         map label t = [''Prover 1'', ''Prover 2'', ''Prover 3''] \<and>
         map addr t = [''0x6220892679110898abd78847d6f0a639e3408dc7'',
                       ''0x34a2df023b535c1bd79a791b259adea947f603e3'',
                       ''0x11973257c9210d852084f7b97f672080c1dbbb53'']"
  using assms by (auto simp: fetchData_table_def PROVERS_def table_row_def split: sum.splits)

lemma fetchData_table_missing:
  assumes "fetchData_table data = Inr t" "i < 3"
    "list_all (\<lambda>r. row_key r \<noteq> Some (toLowerCase (snd (PROVERS ! i)))) data"
  shows "t ! i = \<lparr>label = fst (PROVERS ! i), addr = snd (PROVERS ! i),
                  orders_taken = Fin 0, cycles_proved = Fin 0\<rparr>"
proof -
  from assms(1) obtain entries where e: "map_result byAddr_entry data = Inr entries"
    and t: "t = map (table_row entries) PROVERS"
    by (auto simp: fetchData_table_def split: sum.splits)
  from assms(2) have "i < length PROVERS" by (simp add: PROVERS_def)
  with t have "t ! i = table_row entries (PROVERS ! i)" by simp
  with byAddr_lookup_missing [OF e assms(3)] show ?thesis
    by (simp add: table_row_def)
qed

section \<open>The invariant of the component\<close>

lemma table_like_mono: "D \<subseteq> D' \<Longrightarrow> table_like D rs \<Longrightarrow> table_like D' rs"
  by (auto simp: table_like_def)

lemma callback_ok_mono: "D \<subseteq> D' \<Longrightarrow> callback_ok D cb \<Longrightarrow> callback_ok D' cb"
  by (cases cb) (auto intro: table_like_mono)

lemma comp_inv_mono: "D \<subseteq> D' \<Longrightarrow> comp_inv D c \<Longrightarrow> comp_inv D' c"
  unfolding comp_inv_def list_all_iff
  using table_like_mono [of D D'] callback_ok_mono [of D D'] by blast

lemma persisted_maybeSnapshot:
  assumes "maybeSnapshot rs now st = Inr st'"
  shows "persisted (history st') = persisted (history st) \<or>
         (rs \<noteq> [] \<and> (\<exists>q. persisted (history st') = persisted (history st) @ [q] \<and> provers q = rs))"
proof (cases "length rs = 0 \<or> \<not> isSnapshotWindow now \<or> lastBucketRef st = Some (snapshotBucketKey now)")
  case True
  from maybeSnapshot_skip [OF True] assms show ?thesis by simp
next
  case False
  then have "length rs \<noteq> 0" "isSnapshotWindow now" "lastBucketRef st \<noteq> Some (snapshotBucketKey now)"
    by simp_all
  from maybeSnapshot_new_bucket [OF this] assms \<open>length rs \<noteq> 0\<close> show ?thesis
    by (auto simp: persisted_append)
qed

lemma comp_inv_run_callback:
  assumes "comp_inv D c" "callback_ok D cb"
  shows "comp_inv D (run_callback wall cb c)"
proof (cases cb)
  case FetchData
  with assms show ?thesis
    by (simp add: run_callback_def comp_inv_def fetchData_start_def Let_def)
next
  case (MaybeSnapshot rs)
  obtain s where s: "maybeSnapshot rs (wall (clock c)) (sched c) = Inr s"
    using maybeSnapshot_returns by blast
  from persisted_maybeSnapshot [OF s] assms MaybeSnapshot
  have "list_all (\<lambda>s. \<exists>data\<in>D. fetchData_table data = Inr (provers s)) (persisted (history s))"
    by (auto simp: comp_inv_def table_like_def)
  with assms s MaybeSnapshot show ?thesis
    by (simp add: run_callback_def comp_inv_def Let_def)
qed

lemma comp_inv_fire_timer:
  assumes "comp_inv D c" "callback_ok D (callback tm)"
  shows "comp_inv D (fire_timer wall c tm)"
proof -
  have "comp_inv D (c\<lparr>timers :=
            (case period tm of
               Some ms \<Rightarrow>
                 map (\<lambda>x. if timer_id x = timer_id tm then x\<lparr>due := due x + ms\<rparr> else x) (timers c)
             | None \<Rightarrow> filter (\<lambda>x. timer_id x \<noteq> timer_id tm) (timers c))\<rparr>)"
    using assms(1) by (auto simp: comp_inv_def list_all_iff split: option.splits)
  from comp_inv_run_callback [OF this assms(2)] show ?thesis
    by (simp add: fire_timer_def)
qed

lemma comp_inv_foldl_fire:
  "comp_inv D c \<Longrightarrow> list_all (\<lambda>tm. callback_ok D (callback tm)) tms \<Longrightarrow>
     comp_inv D (foldl (fire_timer wall) c tms)"
  by (induction tms arbitrary: c) (simp_all add: comp_inv_fire_timer)

lemma comp_inv_tick_ms: "comp_inv D c \<Longrightarrow> comp_inv D (tick_ms wall c)"
  unfolding tick_ms_def Let_def
  by (rule comp_inv_foldl_fire) (auto simp: comp_inv_def list_all_iff)

lemma comp_inv_elapse: "comp_inv D c \<Longrightarrow> comp_inv D (elapse wall n c)"
  by (induction n arbitrary: c) (simp_all add: comp_inv_tick_ms)

lemma comp_inv_snapshot_effect: "comp_inv D c \<Longrightarrow> comp_inv D (snapshot_effect c)"
  by (simp add: comp_inv_def snapshot_effect_def setInterval_def setTimeout_def Let_def)

lemma comp_inv_snapshot_cleanup: "comp_inv D c \<Longrightarrow> comp_inv D (snapshot_cleanup c)"
  by (auto simp: comp_inv_def snapshot_cleanup_def clearInterval_def list_all_iff split: option.splits)

lemma comp_inv_poll_cleanup: "comp_inv D c \<Longrightarrow> comp_inv D (poll_cleanup c)"
  by (auto simp: comp_inv_def poll_cleanup_def clearInterval_def list_all_iff split: option.splits)

lemma comp_inv_poll_effect: "comp_inv D c \<Longrightarrow> comp_inv D (poll_effect c)"
  by (simp add: comp_inv_def poll_effect_def setInterval_def fetchData_start_def Let_def)

lemma comp_inv_settle:
  assumes c: "comp_inv D c" and D: "fetched [Settle out] \<subseteq> D"
  shows "comp_inv D (fetchData_settle out c)"
proof -
  have "comp_inv D (setRows table (c\<lparr>in_flight := in_flight c - 1\<rparr>)\<lparr>loading := False\<rparr>)"
    if "fetch_result out = Inr table" for table
  proof -
    from that D have "table_like D table"
      by (cases out) (auto simp: fetch_result_def table_like_def)
    with c have "comp_inv D (c\<lparr>in_flight := in_flight c - 1, rows := table\<rparr>)"
      by (simp add: comp_inv_def)
    then have "comp_inv D (setRows table (c\<lparr>in_flight := in_flight c - 1\<rparr>))"
      unfolding setRows_def by (intro comp_inv_snapshot_effect comp_inv_snapshot_cleanup) simp
    then show ?thesis by (simp add: comp_inv_def)
  qed
  with c show ?thesis
    by (auto simp: fetchData_settle_def Let_def comp_inv_def split: sum.splits)
qed

lemma comp_inv_initial: "comp_inv D (mount (initial b))"
  unfolding mount_def
  by (intro comp_inv_snapshot_effect comp_inv_poll_effect)
     (simp add: comp_inv_def initial_def table_like_def fresh_def)

lemma comp_inv_unmount: "comp_inv D c \<Longrightarrow> comp_inv D (unmount c)"
  unfolding unmount_def by (intro comp_inv_snapshot_cleanup comp_inv_poll_cleanup)

lemma fetched_Cons: "fetched [e] \<subseteq> fetched (e # es) \<and> fetched es \<subseteq> fetched (e # es)"
proof (cases e)
  case (Settle out)
  then show ?thesis by (cases out) auto
qed auto

lemma comp_inv_run_events:
  "comp_inv D c \<Longrightarrow> fetched es \<subseteq> D \<Longrightarrow> comp_inv D (run_events wall es c)"
proof (induction wall es c rule: run_events.induct)
  case (1 wall c)
  then show ?case by simp
next
  case (2 wall n es c)
  then show ?case by (simp add: comp_inv_elapse)
next
  case (3 wall out es c)
  from "3.prems"(2) fetched_Cons [of "Settle out" es]
  have "fetched [Settle out] \<subseteq> D" "fetched es \<subseteq> D" by auto
  with "3.IH" comp_inv_settle [OF "3.prems"(1)] show ?case by simp
next
  case (4 wall es c)
  then show ?case by (simp add: comp_inv_unmount)
qed

lemma fetched_iff: "(data \<in> fetched es) = (Settle (Rows data) \<in> set es)"
  by (induction es rule: fetched.induct) auto

section \<open>Evaluating the component\<close>

lemma elapse_idle:
  "list_all (\<lambda>tm. clock c + n < due tm) (timers c) \<Longrightarrow> elapse wall n c = c\<lparr>clock := clock c + n\<rparr>"
proof (induction n arbitrary: c)
  case 0
  then show ?case by simp
next
  case (Suc n)
  then have "filter (\<lambda>tm. due tm = Suc (clock c)) (timers c) = []"
    by (auto simp: list_all_iff filter_empty_conv)
  then have t: "tick_ms wall c = c\<lparr>clock := clock c + 1\<rparr>"
    by (simp add: tick_ms_def)
  from Suc.prems have "list_all (\<lambda>tm. clock (c\<lparr>clock := clock c + 1\<rparr>) + n < due tm) (timers (c\<lparr>clock := clock c + 1\<rparr>))"
    by (simp add: list_all_iff)
  from Suc.IH [OF this] t show ?case by simp
qed

lemma elapse_add: "elapse wall (m + n) c = elapse wall n (elapse wall m c)"
  by (induction m arbitrary: c) simp_all

lemma elapse_last_tick:
  assumes "0 < n" "list_all (\<lambda>tm. clock c + (n - 1) < due tm) (timers c)"
  shows "elapse wall n c = tick_ms wall (c\<lparr>clock := clock c + (n - 1)\<rparr>)"
proof -
  have "elapse wall ((n - 1) + 1) c = elapse wall 1 (elapse wall (n - 1) c)" by (rule elapse_add)
  with elapse_idle [OF assms(2)] assms(1) show ?thesis by simp
qed

lemmas number_eval = js_Number_def js_or_def truthy_def string_to_number_def trim_def is_ws_def
  scan_non_decimal_def scan_str_decimal_def scan_unsigned_def scan_infinity_def
  scan_unsigned_decimal_def scan_exponent_def is_digit_def digits_val_def digit_val_def
  pow10_def number_of_rat_def double_overflow_def parseCycles_def js_String_def parseFloat_def
  isFinite_def Let_def

lemmas component_eval = mount_def unmount_def initial_def poll_effect_def snapshot_effect_def
  poll_cleanup_def snapshot_cleanup_def setInterval_def setTimeout_def clearInterval_def
  fetchData_start_def fetchData_settle_def fetch_result_def setRows_def tick_ms_def
  fire_timer_def run_callback_def fresh_def Let_def

lemma entry_prover2:
  "byAddr_entry prover2_row = Inr (''0x34a2df023b535c1bd79a791b259adea947f603e3'', Fin 41, Fin 12.5)"
  by (simp add: byAddr_entry_def prover2_row_def toLowerCase_def lower_char_def number_eval)

lemma table_prover2: "fetchData_table [prover2_row] = Inr prover2_table"
  by (simp add: fetchData_table_def entry_prover2 PROVERS_def table_row_def byAddr_lookup_def
      toLowerCase_def lower_char_def prover2_table_def)

lemma maybeSnapshot_Nil: "maybeSnapshot [] now st = Inr st"
  by (simp add: maybeSnapshot_def)

lemma replicate_2: "replicate 2 x = [x, x]"
  by (simp add: numeral_2_eq_2)

lemma replicate_3: "replicate 3 x = [x, x, x]"
  by (simp add: numeral_3_eq_3)

lemma iso_ten: "toISOString (utc 2025 2 15 10 0) = ''2025-03-15T10:00:00.000Z''"
  by (simp add: toISOString_def utc_def padStart_def nat_to_string.simps digit_char_def
      replicate_2 replicate_3)

lemma snap_ten:
  "maybeSnapshot prover2_table (utc 2025 2 15 10 0)
     \<lparr>lastBucketRef = None, browser = quiet_browser, history = []\<rparr> =
   Inr \<lparr>lastBucketRef = Some ''2025-03-15T10:00Z'',
        browser = quiet_browser\<lparr>localStorage :=
          \<lparr>item = Some (JsonArray [\<lparr>bucket = ''2025-03-15T10:00Z'',
               captured_at = ''2025-03-15T10:00:00.000Z'', provers = prover2_table\<rparr>]),
           getItem_throws = False, setItem_throws = False\<rparr>\<rparr>,
        history = [Remember ''2025-03-15T10:00Z'',
          Persist \<lparr>bucket = ''2025-03-15T10:00Z'',
               captured_at = ''2025-03-15T10:00:00.000Z'', provers = prover2_table\<rparr>]\<rparr>"
  by (simp add: maybeSnapshot_def window_utc key_utc_10 iso_ten prover2_table_def
      persistSnapshot_def storage_block_def parse_stored_def resolve_endpoint_def
      quiet_browser_def Let_def)

lemma scenario_after_unmount:
  "run_events ten_oclock [Elapse 120, Settle (Rows [prover2_row]), Elapse 80, Unmount]
     (mount (initial quiet_browser)) =
   \<lparr>rows = prover2_table, loading = False, error = None, sched = fresh quiet_browser,
    stop = True, clock = 200,
    timers = [\<lparr>timer_id = 2, due = 500, period = None, callback = MaybeSnapshot []\<rparr>,
              \<lparr>timer_id = 4, due = 620, period = None, callback = MaybeSnapshot prover2_table\<rparr>],
    next_timer = 5, poll_timer = None, snapshot_timer = None, in_flight = 0, fired = []\<rparr>"
  by (simp add: component_eval elapse_idle table_prover2)

lemma scenario_later:
  "run_events ten_oclock
     [Elapse 120, Settle (Rows [prover2_row]), Elapse 80, Unmount, Elapse 300, Elapse 120]
     (mount (initial quiet_browser)) =
   \<lparr>rows = prover2_table, loading = False, error = None,
    sched = \<lparr>lastBucketRef = Some ''2025-03-15T10:00Z'',
        browser = quiet_browser\<lparr>localStorage :=
          \<lparr>item = Some (JsonArray [\<lparr>bucket = ''2025-03-15T10:00Z'',
               captured_at = ''2025-03-15T10:00:00.000Z'', provers = prover2_table\<rparr>]),
           getItem_throws = False, setItem_throws = False\<rparr>\<rparr>,
        history = [Remember ''2025-03-15T10:00Z'',
          Persist \<lparr>bucket = ''2025-03-15T10:00Z'',
               captured_at = ''2025-03-15T10:00:00.000Z'', provers = prover2_table\<rparr>]\<rparr>,
    stop = True, clock = 620, timers = [],
    next_timer = 5, poll_timer = None, snapshot_timer = None, in_flight = 0,
    fired = [(500, MaybeSnapshot []), (620, MaybeSnapshot prover2_table)]\<rparr>"
  by (simp add: component_eval elapse_idle elapse_last_tick table_prover2 ten_oclock_def
      snap_ten maybeSnapshot_Nil)

section \<open>What a persisted snapshot holds\<close>

text \<open>
  Claim C9.  Whatever happens to a mounted component (time passing, fetches ending in any
  way, teardown), every snapshot it has handed to \<open>persistSnapshot\<close> holds the table built
  from one of the responses it fetched: exactly three rows, labelled Prover 1, Prover 2,
  Prover 3 in this order, with the three addresses of \<open>PROVERS\<close>.  In the table built from
  a response, a prover for which the response has no row is there with 0 orders and 0
  cycles.
\<close>

theorem persisted_snapshots_three_provers:
  "list_all
     (\<lambda>s. (\<exists>data. Settle (Rows data) \<in> set es \<and> fetchData_table data = Inr (provers s)) \<and>
          length (provers s) = 3 \<and>
          map label (provers s) = [''Prover 1'', ''Prover 2'', ''Prover 3''] \<and>
          map addr (provers s) =
            [''0x6220892679110898abd78847d6f0a639e3408dc7'',
             ''0x34a2df023b535c1bd79a791b259adea947f603e3'',
             ''0x11973257c9210d852084f7b97f672080c1dbbb53''])
     (persisted (history (sched (run_events wall es (mount (initial b)))))) \<and>
   (fetchData_table data = Inr t \<and> i < 3 \<and>
    list_all (\<lambda>r. row_key r \<noteq> Some (toLowerCase (snd (PROVERS ! i)))) data \<longrightarrow>
      t ! i = \<lparr>label = fst (PROVERS ! i), addr = snd (PROVERS ! i),
               orders_taken = Fin 0, cycles_proved = Fin 0\<rparr>)"
proof -
  have "comp_inv (fetched es) (run_events wall es (mount (initial b)))"
    by (rule comp_inv_run_events [OF comp_inv_initial]) simp
  then have "list_all (\<lambda>s. \<exists>data. Settle (Rows data) \<in> set es \<and> fetchData_table data = Inr (provers s))
     (persisted (history (sched (run_events wall es (mount (initial b))))))"
    by (simp add: comp_inv_def Bex_def fetched_iff)
  then show ?thesis
    using fetchData_table_shape fetchData_table_missing [of data t i]
    by (fastforce simp: list_all_iff)
qed

theorem persisted_snapshots_three_provers_witness:
  "persisted (history (sched (run_events ten_oclock
      [Elapse 120, Settle (Rows [prover2_row]), Elapse 80, Unmount, Elapse 300, Elapse 120]
      (mount (initial quiet_browser))))) =
     [\<lparr>bucket = ''2025-03-15T10:00Z'', captured_at = ''2025-03-15T10:00:00.000Z'',
       provers = prover2_table\<rparr>] \<and>
   fetchData_table [prover2_row] = Inr prover2_table \<and>
   length prover2_table = 3 \<and>
   prover2_table ! 0 =
     \<lparr>label = ''Prover 1'', addr = ''0x6220892679110898abd78847d6f0a639e3408dc7'',
      orders_taken = Fin 0, cycles_proved = Fin 0\<rparr>"
proof -
  have "list_all (\<lambda>r. row_key r \<noteq> Some (toLowerCase (snd (PROVERS ! 0)))) [prover2_row]"
    by (simp add: row_key_def prover2_row_def js_or_def truthy_def PROVERS_def toLowerCase_def
        lower_char_def)
  with persisted_snapshots_three_provers [of
      "[Elapse 120, Settle (Rows [prover2_row]), Elapse 80, Unmount, Elapse 300, Elapse 120]"
      ten_oclock quiet_browser "[prover2_row]" prover2_table 0] table_prover2
  have "prover2_table ! 0 = \<lparr>label = fst (PROVERS ! 0), addr = snd (PROVERS ! 0),
               orders_taken = Fin 0, cycles_proved = Fin 0\<rparr>"
    by simp
  moreover have "length prover2_table = 3"
    by (simp add: prover2_table_def)
  moreover have "persisted (history (sched (run_events ten_oclock
      [Elapse 120, Settle (Rows [prover2_row]), Elapse 80, Unmount, Elapse 300, Elapse 120]
      (mount (initial quiet_browser))))) =
     [\<lparr>bucket = ''2025-03-15T10:00Z'', captured_at = ''2025-03-15T10:00:00.000Z'',
       provers = prover2_table\<rparr>]"
    by (simp only: scenario_later) simp
  ultimately show ?thesis
    by (simp add: table_prover2 PROVERS_def)
qed

section \<open>What the teardown cancels\<close>

lemma timers_run_callback: "timers (run_callback wall cb c) = timers c"
  by (cases cb) (simp_all add: run_callback_def fetchData_start_def Let_def split: sum.splits)

lemma poll_timer_run_callback: "poll_timer (run_callback wall cb c) = poll_timer c"
  by (cases cb) (simp_all add: run_callback_def fetchData_start_def Let_def split: sum.splits)

lemma snapshot_timer_run_callback: "snapshot_timer (run_callback wall cb c) = snapshot_timer c"
  by (cases cb) (simp_all add: run_callback_def fetchData_start_def Let_def split: sum.splits)

lemma stop_run_callback: "stop (run_callback wall cb c) = stop c"
  by (cases cb) (simp_all add: run_callback_def fetchData_start_def Let_def split: sum.splits)

lemma timers_inv_fire_timer: "timers_inv c \<Longrightarrow> timers_inv (fire_timer wall c tm)"
  by (auto simp: timers_inv_def fire_timer_def timers_run_callback poll_timer_run_callback
      snapshot_timer_run_callback stop_run_callback list_all_iff split: option.splits)

lemma timers_inv_foldl: "timers_inv c \<Longrightarrow> timers_inv (foldl (fire_timer wall) c tms)"
  by (induction tms arbitrary: c) (simp_all add: timers_inv_fire_timer)

lemma timers_inv_tick_ms: "timers_inv c \<Longrightarrow> timers_inv (tick_ms wall c)"
  unfolding tick_ms_def Let_def
  by (rule timers_inv_foldl) (simp add: timers_inv_def)

lemma timers_inv_elapse: "timers_inv c \<Longrightarrow> timers_inv (elapse wall n c)"
  by (induction n arbitrary: c) (simp_all add: timers_inv_tick_ms)

lemma timers_inv_snapshot_cleanup: "timers_inv c \<Longrightarrow> timers_inv (snapshot_cleanup c)"
  by (auto simp: timers_inv_def snapshot_cleanup_def clearInterval_def list_all_iff
      split: option.splits)

lemma timers_inv_snapshot_effect:
  "timers_inv c \<Longrightarrow> snapshot_timer c = None \<Longrightarrow> timers_inv (snapshot_effect c)"
  by (auto simp: timers_inv_def snapshot_effect_def setInterval_def setTimeout_def list_all_iff)

lemma snapshot_timer_cleanup: "snapshot_timer (snapshot_cleanup c) = None"
  by (simp add: snapshot_cleanup_def split: option.splits)

lemma timers_inv_setRows: "timers_inv c \<Longrightarrow> timers_inv (setRows table c)"
proof -
  assume "timers_inv c"
  then have "timers_inv (c\<lparr>rows := table\<rparr>)" by (simp add: timers_inv_def)
  then show ?thesis
    unfolding setRows_def
    by (intro timers_inv_snapshot_effect timers_inv_snapshot_cleanup snapshot_timer_cleanup)
qed

lemma timers_inv_settle: "timers_inv c \<Longrightarrow> timers_inv (fetchData_settle out c)"
proof -
  assume c: "timers_inv c"
  then have "timers_inv (c\<lparr>in_flight := in_flight c - 1\<rparr>)" by (simp add: timers_inv_def)
  from timers_inv_setRows [OF this]
  have "timers_inv ((setRows table (c\<lparr>in_flight := in_flight c - 1\<rparr>))\<lparr>loading := False\<rparr>)" for table
    by (simp add: timers_inv_def)
  with c show ?thesis
    by (auto simp: fetchData_settle_def Let_def timers_inv_def split: sum.splits)
qed

lemma torn_down_unmount: "timers_inv c \<Longrightarrow> torn_down (unmount c)"
  by (auto simp: timers_inv_def torn_down_def unmount_def poll_cleanup_def snapshot_cleanup_def
      clearInterval_def list_all_iff split: option.splits)

lemma timers_inv_torn_down: "torn_down c \<Longrightarrow> timers_inv c"
  by (auto simp: timers_inv_def torn_down_def list_all_iff)

lemma timers_inv_unmount: "timers_inv c \<Longrightarrow> timers_inv (unmount c)"
  by (rule timers_inv_torn_down [OF torn_down_unmount])

lemma timers_inv_mount: "timers_inv (mount (initial b))"
  by (simp add: timers_inv_def mount_def initial_def poll_effect_def snapshot_effect_def
      setInterval_def setTimeout_def fetchData_start_def)

lemma timers_inv_run_events: "timers_inv c \<Longrightarrow> timers_inv (run_events wall es c)"
  by (induction wall es c rule: run_events.induct)
     (simp_all add: timers_inv_elapse timers_inv_settle timers_inv_unmount)

lemma torn_down_fire_timer: "torn_down c \<Longrightarrow> torn_down (fire_timer wall c tm)"
  by (auto simp: torn_down_def fire_timer_def timers_run_callback poll_timer_run_callback
      snapshot_timer_run_callback stop_run_callback list_all_iff split: option.splits)

lemma torn_down_foldl: "torn_down c \<Longrightarrow> torn_down (foldl (fire_timer wall) c tms)"
  by (induction tms arbitrary: c) (simp_all add: torn_down_fire_timer)

lemma torn_down_tick_ms: "torn_down c \<Longrightarrow> torn_down (tick_ms wall c)"
  unfolding tick_ms_def Let_def
  by (rule torn_down_foldl) (simp add: torn_down_def)

lemma torn_down_elapse: "torn_down c \<Longrightarrow> torn_down (elapse wall n c)"
  by (induction n arbitrary: c) (simp_all add: torn_down_tick_ms)

lemma torn_down_settle: "torn_down c \<Longrightarrow> torn_down (fetchData_settle out c)"
  by (auto simp: torn_down_def fetchData_settle_def Let_def split: sum.splits)

lemma torn_down_unmount_again: "torn_down c \<Longrightarrow> torn_down (unmount c)"
  by (rule torn_down_unmount [OF timers_inv_torn_down])

lemma torn_down_run_events: "torn_down c \<Longrightarrow> torn_down (run_events wall es c)"
  by (induction wall es c rule: run_events.induct)
     (simp_all add: torn_down_elapse torn_down_settle torn_down_unmount_again)

lemma intervals_cleared:
  "torn_down (run_events wall es' (unmount (run_events wall es (mount (initial b)))))"
  by (intro torn_down_run_events torn_down_unmount timers_inv_run_events timers_inv_mount)


section \<open>Ticks of a component without rows\<close>

lemma rows_run_callback: "rows (run_callback wall cb c) = rows c"
  by (cases cb) (simp_all add: run_callback_def fetchData_start_def Let_def split: sum.splits)

lemma rows_fire_timer: "rows (fire_timer wall c tm) = rows c"
  by (simp add: fire_timer_def rows_run_callback)

lemma empty_closures_fire_timer: "empty_closures c \<Longrightarrow> empty_closures (fire_timer wall c tm)"
  by (auto simp: empty_closures_def fire_timer_def timers_run_callback rows_run_callback
      list_all_iff split: option.splits)

lemma empty_closures_foldl: "empty_closures c \<Longrightarrow> empty_closures (foldl (fire_timer wall) c tms)"
  by (induction tms arbitrary: c) (simp_all add: empty_closures_fire_timer)

lemma empty_closures_tick_ms: "empty_closures c \<Longrightarrow> empty_closures (tick_ms wall c)"
  unfolding tick_ms_def Let_def
  by (rule empty_closures_foldl) (simp add: empty_closures_def)

lemma empty_closures_elapse: "empty_closures c \<Longrightarrow> empty_closures (elapse wall n c)"
  by (induction n arbitrary: c) (simp_all add: empty_closures_tick_ms)

lemma empty_closures_snapshot_cleanup: "empty_closures c \<Longrightarrow> empty_closures (snapshot_cleanup c)"
  by (auto simp: empty_closures_def snapshot_cleanup_def clearInterval_def list_all_iff
      split: option.splits)

lemma empty_closures_poll_cleanup: "empty_closures c \<Longrightarrow> empty_closures (poll_cleanup c)"
  by (auto simp: empty_closures_def poll_cleanup_def clearInterval_def list_all_iff
      split: option.splits)

lemma empty_closures_snapshot_effect: "empty_closures c \<Longrightarrow> empty_closures (snapshot_effect c)"
  by (auto simp: empty_closures_def snapshot_effect_def setInterval_def setTimeout_def)

lemma empty_closures_settle: "empty_closures c \<Longrightarrow> empty_closures (fetchData_settle out c)"
proof -
  assume c: "empty_closures c"
  have "empty_closures ((setRows table (c\<lparr>in_flight := in_flight c - 1\<rparr>))\<lparr>loading := False\<rparr>)"
    if "fetch_result out = Inr table" for table
  proof -
    from that have "table \<noteq> []"
      by (cases out) (auto simp: fetch_result_def dest: fetchData_table_shape)
    then show ?thesis
      by (simp add: empty_closures_def setRows_def snapshot_effect_def snapshot_cleanup_def
          clearInterval_def setInterval_def setTimeout_def split: option.splits)
  qed
  with c show ?thesis
    by (auto simp: fetchData_settle_def Let_def empty_closures_def split: sum.splits)
qed

lemma empty_closures_mount: "empty_closures (mount (initial b))"
  by (simp add: empty_closures_def mount_def initial_def poll_effect_def snapshot_effect_def
      setInterval_def setTimeout_def fetchData_start_def)

lemma empty_closures_unmount: "empty_closures c \<Longrightarrow> empty_closures (unmount c)"
  unfolding unmount_def by (intro empty_closures_snapshot_cleanup empty_closures_poll_cleanup)

lemma empty_closures_run_events: "empty_closures c \<Longrightarrow> empty_closures (run_events wall es c)"
  by (induction wall es c rule: run_events.induct)
     (simp_all add: empty_closures_elapse empty_closures_settle empty_closures_unmount)

lemma sched_fire_timer_empty:
  "callback tm = FetchData \<or> callback tm = MaybeSnapshot [] \<Longrightarrow> sched (fire_timer wall c tm) = sched c"
  by (auto simp: fire_timer_def run_callback_def fetchData_start_def maybeSnapshot_Nil Let_def)

lemma sched_foldl_empty:
  "list_all (\<lambda>tm. callback tm = FetchData \<or> callback tm = MaybeSnapshot []) tms \<Longrightarrow>
     sched (foldl (fire_timer wall) c tms) = sched c"
  by (induction tms arbitrary: c) (simp_all add: sched_fire_timer_empty)

lemma sched_tick_ms_empty:
  assumes "empty_closures c" "rows c = []"
  shows "sched (tick_ms wall c) = sched c"
proof -
  from assms have "list_all (\<lambda>tm. callback tm = FetchData \<or> callback tm = MaybeSnapshot [])
      (filter (\<lambda>tm. due tm = clock c + 1) (timers c))"
    by (simp add: empty_closures_def list_all_iff)
  from sched_foldl_empty [OF this] show ?thesis
    by (simp add: tick_ms_def)
qed

lemma rows_tick_ms: "rows (tick_ms wall c) = rows c"
proof -
  have "rows (foldl (fire_timer wall) d tms) = rows d" for d tms
    by (induction tms arbitrary: d) (simp_all add: rows_fire_timer)
  then show ?thesis by (simp add: tick_ms_def)
qed

lemma sched_elapse_empty:
  "empty_closures c \<Longrightarrow> rows c = [] \<Longrightarrow> sched (elapse wall n c) = sched c"
proof (induction n arbitrary: c)
  case 0
  show ?case by simp
next
  case (Suc n)
  from Suc.prems have "empty_closures (tick_ms wall c)" "rows (tick_ms wall c) = []"
    by (simp_all add: empty_closures_tick_ms rows_tick_ms)
  from Suc.IH [OF this] sched_tick_ms_empty [OF Suc.prems] show ?case by simp
qed

lemma no_rows_no_tick_effect:
  "rows (run_events wall es (mount (initial b))) = [] \<Longrightarrow>
     sched (elapse wall n (run_events wall es (mount (initial b)))) =
     sched (run_events wall es (mount (initial b)))"
  by (intro sched_elapse_empty empty_closures_run_events empty_closures_mount)

section \<open>A tick without rows\<close>

text \<open>
  Claim C8.  A tick whose rows are empty changes nothing: the session it returns is the
  session it was given, with the same remembered bucket, the same browser (nothing
  stored, nothing posted) and the same history (no snapshot handed over).  In a mounted
  component whose rows are empty, whatever happened before, the timers that fire while
  time passes leave the session as it is.
\<close>

theorem maybeSnapshot_without_rows:
  "maybeSnapshot [] now st = Inr st \<and>
   (rows (run_events wall es (mount (initial b))) = [] \<longrightarrow>
      sched (elapse wall n (run_events wall es (mount (initial b)))) =
      sched (run_events wall es (mount (initial b))))"
  using no_rows_no_tick_effect [of wall es b n] by (simp add: maybeSnapshot_Nil)

theorem maybeSnapshot_without_rows_witness:
  "maybeSnapshot [] (utc 2025 2 15 10 0) (fresh quiet_browser) = Inr (fresh quiet_browser) \<and>
   rows (run_events ten_oclock [Settle Rejected] (mount (initial quiet_browser))) = [] \<and>
   sched (elapse ten_oclock 60000
            (run_events ten_oclock [Settle Rejected] (mount (initial quiet_browser)))) =
     fresh quiet_browser"
proof -
  have "run_events ten_oclock [Settle Rejected] (mount (initial quiet_browser)) =
      (mount (initial quiet_browser))\<lparr>in_flight := 0, error := Some NetworkError, loading := False\<rparr>"
    by (simp add: component_eval)
  moreover have "rows (mount (initial quiet_browser)) = []"
    "sched (mount (initial quiet_browser)) = fresh quiet_browser"
    by (simp_all add: component_eval)
  ultimately show ?thesis
    using maybeSnapshot_without_rows [of "utc 2025 2 15 10 0" "fresh quiet_browser" ten_oclock
        "[Settle Rejected]" quiet_browser 60000]
    by simp
qed

section \<open>Teardown\<close>

text \<open>
  Claim C6 asks that no poll and no scheduler tick fires after the teardown.  The
  teardown cancels both intervals, whatever happened before (\<open>intervals_cleared\<close>): no
  poll fires again.  The cleanup of the second effect does not cancel the timeout of
  the initial check.  A component mounted at 0 ms whose first fetch ends at 120 ms and
  which is torn down at 200 ms has two timeouts left: the scheduler then ticks at 500 ms
  and at 620 ms, and the second tick persists a snapshot.
\<close>

theorem tick_after_unmount:
  "timers (run_events ten_oclock [Elapse 120, Settle (Rows [prover2_row]), Elapse 80, Unmount]
      (mount (initial quiet_browser))) =
     [\<lparr>timer_id = 2, due = 500, period = None, callback = MaybeSnapshot []\<rparr>,
      \<lparr>timer_id = 4, due = 620, period = None, callback = MaybeSnapshot prover2_table\<rparr>] \<and>
   fired (run_events ten_oclock
      [Elapse 120, Settle (Rows [prover2_row]), Elapse 80, Unmount, Elapse 300, Elapse 120]
      (mount (initial quiet_browser))) =
     [(500, MaybeSnapshot []), (620, MaybeSnapshot prover2_table)] \<and>
   persisted (history (sched (run_events ten_oclock
      [Elapse 120, Settle (Rows [prover2_row]), Elapse 80, Unmount, Elapse 300, Elapse 120]
      (mount (initial quiet_browser))))) =
     [\<lparr>bucket = ''2025-03-15T10:00Z'', captured_at = ''2025-03-15T10:00:00.000Z'',
       provers = prover2_table\<rparr>]"
  by (simp only: scenario_after_unmount scenario_later) simp

section \<open>Malformed numeric fields\<close>

lemma parseCycles_finite: "isFinite (parseCycles v)"
  by (simp add: parseCycles_def isFinite_def Let_def)

text \<open>
  Claim C7 asks that a malformed \<^verbatim>\<open>orders_taken\<close> counts as zero, as a malformed
  \<^verbatim>\<open>cycles_proved\<close> does.  \<open>parseCycles\<close> always returns a finite number
  (\<open>parseCycles_finite\<close>), 12.5 for
  \<^verbatim>\<open>"12.5K"\<close> and 0 for \<^verbatim>\<open>null\<close>, a missing field and text without a leading digit or dot.
  \<^verbatim>\<open>Number(r.orders_taken || 0)\<close> is 0 for a missing, null or empty field, and \<^verbatim>\<open>NaN\<close>
  for text that is no number: the row of the table then holds \<^verbatim>\<open>NaN\<close> orders.
\<close>

theorem orders_taken_not_a_number:
  "fetchData_table
     [\<lparr>r_prover_addr = JString ''0x34a2df023b535c1bd79a791b259adea947f603e3'',
       r_orders_taken = JString ''abc'', r_cycles_proved = JString ''abc''\<rparr>] =
   Inr [\<lparr>label = ''Prover 1'', addr = ''0x6220892679110898abd78847d6f0a639e3408dc7'',
         orders_taken = Fin 0, cycles_proved = Fin 0\<rparr>,
        \<lparr>label = ''Prover 2'', addr = ''0x34a2df023b535c1bd79a791b259adea947f603e3'',
         orders_taken = NaN, cycles_proved = Fin 0\<rparr>,
        \<lparr>label = ''Prover 3'', addr = ''0x11973257c9210d852084f7b97f672080c1dbbb53'',
         orders_taken = Fin 0, cycles_proved = Fin 0\<rparr>] \<and>
   parseCycles (JString ''12.5K'') = Fin 12.5 \<and>
   parseCycles JNull = Fin 0 \<and> parseCycles JUndefined = Fin 0 \<and>
   parseCycles (JString ''abc'') = Fin 0 \<and>
   js_Number (js_or JUndefined (JInt 0)) = Fin 0 \<and>
   js_Number (js_or (JString ''abc'') (JInt 0)) = NaN"
  by (simp add: fetchData_table_def byAddr_entry_def PROVERS_def table_row_def byAddr_lookup_def
      toLowerCase_def lower_char_def number_eval)

section \<open>Grouping, sorting and cutting the top list\<close>

lemma map_of_put: "map_of (put k v ps) = (map_of ps)(k \<mapsto> v)"
  by (induction ps) (auto simp: fun_eq_iff)





















section \<open>The top provers\<close>




end
